theory Spec2Isabelle
  imports Main "HOL-Library.Word"
begin

section \<open>The statement batch: \<^verbatim>\<open>TransactionBase\<close>\<close>

text \<open>
  An entry of a batch is \<^verbatim>\<open>TransactionData\<close>, a variant of an owned prepared statement
  and a raw SQL string. A prepared statement object is identified by a number (its
  address); a pointer argument is an \<open>option\<close>, with \<open>None\<close> for the null pointer.
\<close>

type_synonym PreparedStatementBase = nat

datatype TransactionData = PreparedStatement PreparedStatementBase | RawQuery string

text \<open>
  The two data members of \<^verbatim>\<open>TransactionBase\<close>: the vector \<^verbatim>\<open>m_queries\<close> and the flag
  \<^verbatim>\<open>_cleanedUp\<close> (an Isabelle name cannot start with an underscore).
\<close>

record TransactionBase =
  m_queries :: "TransactionData list"
  cleanedUp :: bool

text \<open>
  Modelled from the spec: the constructor of \<^verbatim>\<open>TransactionBase\<close> is declared in
  Transaction.h, which is not among the sources. The spec has a batch "created empty by
  a caller", not yet cleaned up.
\<close>

definition new_TransactionBase :: TransactionBase where
  "new_TransactionBase = \<lparr>m_queries = [], cleanedUp = False\<rparr>"

text \<open>
  Modelled from the spec: the macro \<^verbatim>\<open>ASSERT\<close> comes from Errors.h, which is not among
  the sources. The spec calls it an assertion-style fatal check: a failed \<^verbatim>\<open>ASSERT\<close> aborts,
  and the operation does not return. An aborted operation is the value \<open>Inl AssertionFailed\<close>.
\<close>

datatype error = AssertionFailed

text \<open>
  \<^verbatim>\<open>ASSERT(sql); m_queries.emplace_back(std::in_place_type<std::string>, sql);\<close>
  The check is on the pointer only: a pointer to the empty string is not null.
\<close>

definition Append :: "string option \<Rightarrow> TransactionBase \<Rightarrow> error + TransactionBase" where
  "Append sql t =
     (case sql of
        None \<Rightarrow> Inl AssertionFailed
      | Some q \<Rightarrow> Inr (t\<lparr>m_queries := m_queries t @ [RawQuery q]\<rparr>))"

text \<open>
  \<^verbatim>\<open>ASSERT(stmt); m_queries.emplace_back(std::in_place_type<std::unique_ptr<PreparedStatementBase>>, stmt);\<close>
\<close>

definition AppendPreparedStatement ::
    "PreparedStatementBase option \<Rightarrow> TransactionBase \<Rightarrow> error + TransactionBase" where
  "AppendPreparedStatement stmt t =
     (case stmt of
        None \<Rightarrow> Inl AssertionFailed
      | Some p \<Rightarrow> Inr (t\<lparr>m_queries := m_queries t @ [PreparedStatement p]\<rparr>))"

text \<open>
  \<^verbatim>\<open>if (_cleanedUp) return; m_queries.clear(); _cleanedUp = true;\<close>
\<close>

definition Cleanup :: "TransactionBase \<Rightarrow> TransactionBase" where
  "Cleanup t = (if cleanedUp t then t else t\<lparr>m_queries := [], cleanedUp := True\<rparr>)"

text \<open>
  A caller's calls on one batch, in order. A call that aborts ends the run: nothing
  after it is executed.
\<close>

datatype batch_call =
    CallAppend "string option"
  | CallAppendPreparedStatement "PreparedStatementBase option"
  | CallCleanup

fun call :: "batch_call \<Rightarrow> TransactionBase \<Rightarrow> error + TransactionBase" where
  "call (CallAppend sql) t = Append sql t"
| "call (CallAppendPreparedStatement stmt) t = AppendPreparedStatement stmt t"
| "call CallCleanup t = Inr (Cleanup t)"

fun calls :: "batch_call list \<Rightarrow> TransactionBase \<Rightarrow> error + TransactionBase" where
  "calls [] t = Inr t"
| "calls (c # cs) t = (case call c t of Inl e \<Rightarrow> Inl e | Inr t' \<Rightarrow> calls cs t')"

text \<open>The append call that puts a given entry into a batch.\<close>

fun append_of :: "TransactionData \<Rightarrow> batch_call" where
  "append_of (RawQuery q) = CallAppend (Some q)"
| "append_of (PreparedStatement p) = CallAppendPreparedStatement (Some p)"

text \<open>The batch invariant of the data model: a batch marked cleaned-up has no entries.\<close>

definition cleaned_is_empty :: "TransactionBase \<Rightarrow> bool" where
  "cleaned_is_empty t = (cleanedUp t \<longrightarrow> m_queries t = [])"

text \<open>A sequence of calls in which no append comes after a \<^verbatim>\<open>Cleanup\<close>.\<close>

fun no_append_after_Cleanup :: "batch_call list \<Rightarrow> bool" where
  "no_append_after_Cleanup [] = True"
| "no_append_after_Cleanup (CallCleanup # cs) = list_all (\<lambda>c. c = CallCleanup) cs"
| "no_append_after_Cleanup (CallAppend sql # cs) = no_append_after_Cleanup cs"
| "no_append_after_Cleanup (CallAppendPreparedStatement stmt # cs) = no_append_after_Cleanup cs"

section \<open>The executor: \<^verbatim>\<open>TransactionTask::Execute\<close>\<close>

text \<open>
  \<^verbatim>\<open>#define DEADLOCK_MAX_RETRY_TIME_MS 60000\<close>. The loop compares it with the \<^verbatim>\<open>uint32\<close>
  \<^verbatim>\<open>loopDuration\<close>, so the comparison is the unsigned one of 32-bit words.
\<close>

definition DEADLOCK_MAX_RETRY_TIME_MS :: "32 word" where
  "DEADLOCK_MAX_RETRY_TIME_MS = 60000"

text \<open>
  The deadlock code of the MySQL client headers (\<^verbatim>\<open>mysqld_error.h\<close>, not a file of this
  repository): \<^verbatim>\<open>#define ER_LOCK_DEADLOCK 1213\<close>.
\<close>

definition ER_LOCK_DEADLOCK :: int where
  "ER_LOCK_DEADLOCK = 1213"

text \<open>
  The collaborators of \<^verbatim>\<open>Execute\<close> are not among the sources; they are parameters of the
  model, and every theorem holds for all of them.
  \<^item> \<open>ExecuteTransaction env k t\<close> is the code that the \<open>k\<close>-th call (from 0) of
    \<^verbatim>\<open>conn->ExecuteTransaction(trans)\<close> returns when handed the batch \<open>t\<close>; 0 is success.
    Modelled from the spec: the connection reports a result code and leaves the batch as
    it is.
  \<^item> \<open>getMSTime env\<close> is what the one call of \<^verbatim>\<open>getMSTime()\<close> returns.
  \<^item> \<open>GetMSTimeDiffToNow env k start\<close> is what the \<open>k\<close>-th call (from 0) of
    \<^verbatim>\<open>GetMSTimeDiffToNow(startMSTime)\<close> returns.
  \<^item> \<open>threadId env\<close> is the printed \<^verbatim>\<open>std::this_thread::get_id()\<close>.
\<close>

record environment =
  ExecuteTransaction :: "nat \<Rightarrow> TransactionBase \<Rightarrow> int"
  getMSTime :: "32 word"
  GetMSTimeDiffToNow :: "nat \<Rightarrow> 32 word \<Rightarrow> 32 word"
  threadId :: string

text \<open>
  What \<^verbatim>\<open>TC_LOG_WARN\<close> and \<^verbatim>\<open>TC_LOG_ERROR\<close> are called with: the loop timer and the thread
  id for the warning, the thread id for the error. The error is the observation that the
  transaction "will not be retried anymore".
\<close>

datatype log_message = LOG_WARN "32 word" string | LOG_ERROR string

fun is_warning :: "log_message \<Rightarrow> bool" where
  "is_warning (LOG_WARN loopDuration tid) = True"
| "is_warning (LOG_ERROR tid) = False"

text \<open>
  The state of one run of \<^verbatim>\<open>Execute\<close>: the batch behind \<^verbatim>\<open>trans\<close>, the codes the connection
  has returned so far (one per call, in order), the number of calls of
  \<^verbatim>\<open>GetMSTimeDiffToNow\<close> so far, and the log messages emitted so far.
\<close>

record execution =
  transaction :: TransactionBase
  attempts :: "int list"
  clock_reads :: nat
  logged :: "log_message list"

text \<open>\<^verbatim>\<open>return conn->ExecuteTransaction(trans);\<close>\<close>

definition TryExecute :: "environment \<Rightarrow> execution \<Rightarrow> int \<times> execution" where
  "TryExecute env s =
     (let errorCode = ExecuteTransaction env (length (attempts s)) (transaction s)
      in (errorCode, s\<lparr>attempts := attempts s @ [errorCode]\<rparr>))"

text \<open>
  The \<^verbatim>\<open>for\<close> loop of \<^verbatim>\<open>Execute\<close>, entered with \<^verbatim>\<open>loopDuration = 0\<close> and
  \<^verbatim>\<open>startMSTime = getMSTime()\<close>. The result \<open>Some (True, s)\<close> is the \<^verbatim>\<open>return true\<close> inside
  the loop, \<open>Some (False, s)\<close> is the loop left by its condition, and \<open>None\<close> is a loop
  that never ends.
\<close>

partial_function (option) retry_loop ::
    "environment \<Rightarrow> 32 word \<Rightarrow> 32 word \<Rightarrow> execution \<Rightarrow> (bool \<times> execution) option" where
  "retry_loop env startMSTime loopDuration s =
     (if loopDuration \<le> DEADLOCK_MAX_RETRY_TIME_MS then
        (let (errorCode, s1) = TryExecute env s in
         if errorCode = 0 then Some (True, s1)
         else retry_loop env startMSTime
                (GetMSTimeDiffToNow env (clock_reads s1) startMSTime)
                (s1\<lparr>logged := logged s1 @ [LOG_WARN loopDuration (threadId env)],
                    clock_reads := Suc (clock_reads s1)\<rparr>))
      else Some (False, s))"

declare retry_loop.simps [code]

text \<open>
  \<^verbatim>\<open>Execute\<close>. The lock guard on the static mutex \<^verbatim>\<open>_deadlockLock\<close> is taken before the
  loop and released when the block is left; in a single run it changes neither the result
  nor the batch, and the model leaves it out.
\<close>

definition Execute :: "environment \<Rightarrow> TransactionBase \<Rightarrow> (bool \<times> execution) option" where
  "Execute env t =
     (let (errorCode, s) =
            TryExecute env \<lparr>transaction = t, attempts = [], clock_reads = 0, logged = []\<rparr>
      in if errorCode = 0 then Some (True, s)
         else if errorCode = ER_LOCK_DEADLOCK then
           (case retry_loop env (getMSTime env) 0 s of
              None \<Rightarrow> None
            | Some (True, s') \<Rightarrow> Some (True, s')
            | Some (False, s') \<Rightarrow>
                Some (False, s'\<lparr>logged := logged s' @ [LOG_ERROR (threadId env)],
                               transaction := Cleanup (transaction s')\<rparr>))
         else Some (False, s\<lparr>transaction := Cleanup (transaction s)\<rparr>))"

text \<open>The elapsed time that the \<open>k\<close>-th reading of the clock in the loop reports.\<close>

definition elapsed :: "environment \<Rightarrow> nat \<Rightarrow> 32 word" where
  "elapsed env k = GetMSTimeDiffToNow env k (getMSTime env)"

text \<open>
  A scripted environment, for running \<^verbatim>\<open>Execute\<close> on concrete inputs: the connection
  returns the codes of a list, one per call, and 0 after them; the clock starts at 0 and
  reports the elapsed times of a list, one per reading, and 0 after them.
\<close>

definition scripted :: "int list \<Rightarrow> 32 word list \<Rightarrow> environment" where
  "scripted codes readings =
     \<lparr>ExecuteTransaction = (\<lambda>k t. if k < length codes then codes ! k else 0),
      getMSTime = 0,
      GetMSTimeDiffToNow = (\<lambda>k start. if k < length readings then readings ! k else 0),
      threadId = ''1''\<rparr>"

section \<open>The completion handle: \<^verbatim>\<open>TransactionCallback\<close>\<close>

text \<open>
  A \<^verbatim>\<open>std::future<bool>\<close> as the C++ standard has it: without a shared state
  (\<^verbatim>\<open>valid()\<close> is false), with a shared state that holds no value yet, or with one that
  holds the value. \<^verbatim>\<open>get()\<close> returns the value and releases the shared state, after which
  \<^verbatim>\<open>valid()\<close> is false.
\<close>

datatype future = NoState | NotReady | Ready bool

fun valid :: "future \<Rightarrow> bool" where
  "valid NoState = False"
| "valid _ = True"

fun is_ready :: "future \<Rightarrow> bool" where
  "is_ready (Ready v) = True"
| "is_ready _ = False"

text \<open>
  The handle: the future \<^verbatim>\<open>m_future\<close>, and in place of the function object \<^verbatim>\<open>m_callback\<close>
  the arguments it has been invoked with so far, in order.
\<close>

record TransactionCallback =
  m_future :: future
  m_callback_invoked :: "bool list"

text \<open>
  \<^verbatim>\<open>if (m_future.valid() && m_future.wait_for(std::chrono::seconds(0)) == std::future_status::ready)\<close>
  \<^verbatim>\<open>{ m_callback(m_future.get()); return true; } return false;\<close>
\<close>

definition InvokeIfReady :: "TransactionCallback \<Rightarrow> bool \<times> TransactionCallback" where
  "InvokeIfReady h =
     (if valid (m_future h) \<and> is_ready (m_future h) then
        (case m_future h of
           Ready v \<Rightarrow>
             (True, h\<lparr>m_future := NoState, m_callback_invoked := m_callback_invoked h @ [v]\<rparr>)
         | _ \<Rightarrow> (False, h))
      else (False, h))"

text \<open>
  What happens to a handle over time: the owner polls it, or the task that runs the
  transaction stores its result in the shared state. A result can be stored only once,
  and only in a shared state the future still refers to.
\<close>

datatype handle_event = Poll | Fulfil bool

fun handle_step :: "handle_event \<Rightarrow> TransactionCallback \<Rightarrow> TransactionCallback" where
  "handle_step Poll h = snd (InvokeIfReady h)"
| "handle_step (Fulfil v) h =
     (case m_future h of NotReady \<Rightarrow> h\<lparr>m_future := Ready v\<rparr> | _ \<Rightarrow> h)"

fun handle_run :: "handle_event list \<Rightarrow> TransactionCallback \<Rightarrow> TransactionCallback" where
  "handle_run [] h = h"
| "handle_run (e # es) h = handle_run es (handle_step e h)"

section \<open>Properties of the statement batch\<close>

lemma Cleanup_keeps_invariant: "cleaned_is_empty t \<Longrightarrow> cleaned_is_empty (Cleanup t)"
  by (simp add: cleaned_is_empty_def Cleanup_def)

lemma Cleanup_fresh_invariant: "\<not> cleanedUp t \<Longrightarrow> cleaned_is_empty (Cleanup t)"
  by (simp add: cleaned_is_empty_def Cleanup_def)

lemma Cleanup_idem: "Cleanup (Cleanup t) = Cleanup t"
  by (simp add: Cleanup_def)

lemma Cleanup_funpow: "(Cleanup ^^ Suc n) t = Cleanup t"
  by (induction n) (simp_all add: Cleanup_idem)

lemma Append_Some: "Append (Some q) t = Inr (t\<lparr>m_queries := m_queries t @ [RawQuery q]\<rparr>)"
  by (simp add: Append_def)

lemma AppendPreparedStatement_Some:
  "AppendPreparedStatement (Some p) t = Inr (t\<lparr>m_queries := m_queries t @ [PreparedStatement p]\<rparr>)"
  by (simp add: AppendPreparedStatement_def)

lemma calls_append_of:
  "calls (map append_of es) t = Inr (t\<lparr>m_queries := m_queries t @ es\<rparr>)"
proof (induction es arbitrary: t)
  case Nil
  show ?case by simp
next
  case (Cons e es)
  show ?case
    by (cases e) (simp_all add: Cons.IH Append_Some AppendPreparedStatement_Some)
qed

lemma call_append_entry:
  assumes "c \<noteq> CallCleanup" and "call c t = Inr u"
  shows "\<exists>e. c = append_of e \<and> u = t\<lparr>m_queries := m_queries t @ [e]\<rparr>"
proof (cases c)
  case (CallAppend sql)
  with assms(2) obtain q where "sql = Some q" and "u = t\<lparr>m_queries := m_queries t @ [RawQuery q]\<rparr>"
    by (auto simp: Append_def split: option.splits)
  with CallAppend have "c = append_of (RawQuery q) \<and> u = t\<lparr>m_queries := m_queries t @ [RawQuery q]\<rparr>"
    by simp
  then show ?thesis by (rule exI)
next
  case (CallAppendPreparedStatement stmt)
  with assms(2) obtain p where "stmt = Some p" and "u = t\<lparr>m_queries := m_queries t @ [PreparedStatement p]\<rparr>"
    by (auto simp: AppendPreparedStatement_def split: option.splits)
  with CallAppendPreparedStatement
  have "c = append_of (PreparedStatement p) \<and> u = t\<lparr>m_queries := m_queries t @ [PreparedStatement p]\<rparr>"
    by simp
  then show ?thesis by (rule exI)
next
  case CallCleanup
  with assms(1) show ?thesis by simp
qed

lemma calls_appends_entries:
  "list_all (\<lambda>c. c \<noteq> CallCleanup) cs \<Longrightarrow> calls cs t = Inr t' \<Longrightarrow>
     \<exists>es. cs = map append_of es \<and> t' = t\<lparr>m_queries := m_queries t @ es\<rparr>"
proof (induction cs arbitrary: t)
  case Nil
  then have "[] = map append_of [] \<and> t' = t\<lparr>m_queries := m_queries t @ []\<rparr>" by simp
  then show ?case by (rule exI [of _ "[]"])
next
  case (Cons c cs)
  from Cons.prems obtain u where u: "call c t = Inr u" and run: "calls cs u = Inr t'"
    by (auto split: sum.splits)
  from Cons.prems(1) have c: "c \<noteq> CallCleanup" and rest: "list_all (\<lambda>c. c \<noteq> CallCleanup) cs"
    by simp_all
  from call_append_entry [OF c u] obtain e
    where e: "c = append_of e" "u = t\<lparr>m_queries := m_queries t @ [e]\<rparr>" by blast
  from Cons.IH [OF rest run] obtain es
    where es: "cs = map append_of es" "t' = u\<lparr>m_queries := m_queries u @ es\<rparr>" by blast
  from e es have "c # cs = map append_of (e # es) \<and> t' = t\<lparr>m_queries := m_queries t @ (e # es)\<rparr>"
    by simp
  then show ?case by (rule exI [of _ "e # es"])
qed

lemma calls_Cleanup_only:
  "list_all (\<lambda>c. c = CallCleanup) cs \<Longrightarrow> cleaned_is_empty t \<Longrightarrow> calls cs t = Inr t' \<Longrightarrow>
     cleaned_is_empty t'"
proof (induction cs arbitrary: t)
  case Nil
  then show ?case by simp
next
  case (Cons c cs)
  from Cons.prems have c: "c = CallCleanup" and rest: "list_all (\<lambda>c. c = CallCleanup) cs"
    by simp_all
  from Cons.prems c have run: "calls cs (Cleanup t) = Inr t'"
    by simp
  show ?case
    by (rule Cons.IH [OF rest Cleanup_keeps_invariant run]) (rule Cons.prems(2))
qed

lemma calls_keeps_invariant:
  "no_append_after_Cleanup cs \<Longrightarrow> \<not> cleanedUp t \<Longrightarrow> calls cs t = Inr t' \<Longrightarrow> cleaned_is_empty t'"
proof (induction cs arbitrary: t rule: no_append_after_Cleanup.induct)
  case 1
  then show ?case by (simp add: cleaned_is_empty_def)
next
  case (2 cs)
  from "2.prems" have run: "calls cs (Cleanup t) = Inr t'" by simp
  from "2.prems" have rest: "list_all (\<lambda>c. c = CallCleanup) cs" by simp
  show ?case
    by (rule calls_Cleanup_only [OF rest Cleanup_fresh_invariant run]) (rule "2.prems"(2))
next
  case (3 v cs)
  from "3.prems" obtain u where u: "Append v t = Inr u" and run: "calls cs u = Inr t'"
    by (auto split: sum.splits)
  from u "3.prems"(2) have "\<not> cleanedUp u"
    by (auto simp: Append_def split: option.splits)
  moreover from "3.prems"(1) have "no_append_after_Cleanup cs" by simp
  ultimately show ?case using "3.IH" run by blast
next
  case (4 v cs)
  from "4.prems" obtain u
    where u: "AppendPreparedStatement v t = Inr u" and run: "calls cs u = Inr t'"
    by (auto split: sum.splits)
  from u "4.prems"(2) have "\<not> cleanedUp u"
    by (auto simp: AppendPreparedStatement_def split: option.splits)
  moreover from "4.prems"(1) have "no_append_after_Cleanup cs" by simp
  ultimately show ?case using "4.IH" run by blast
qed

text \<open>
  Claim C6, amended. The invariant holds after construction, \<^verbatim>\<open>Cleanup\<close> preserves it, and the
  two append operations preserve it on a batch that is not marked cleaned-up; so after
  every sequence of calls in which no append follows a \<^verbatim>\<open>Cleanup\<close>, a batch marked
  cleaned-up has an empty sequence.
\<close>

theorem C6_invariant_without_append_after_Cleanup:
  "cleaned_is_empty new_TransactionBase
   \<and> (cleaned_is_empty t \<longrightarrow> cleaned_is_empty (Cleanup t))
   \<and> (\<not> cleanedUp t \<longrightarrow> Append sql t = Inr u \<longrightarrow> cleaned_is_empty u)
   \<and> (\<not> cleanedUp t \<longrightarrow> AppendPreparedStatement stmt t = Inr v \<longrightarrow> cleaned_is_empty v)
   \<and> (no_append_after_Cleanup cs \<longrightarrow> calls cs new_TransactionBase = Inr t' \<longrightarrow>
        cleaned_is_empty t')"
proof -
  have "cleaned_is_empty new_TransactionBase"
    by (simp add: cleaned_is_empty_def new_TransactionBase_def)
  moreover have "cleaned_is_empty u" if "\<not> cleanedUp t" and "Append sql t = Inr u"
    using that by (auto simp: Append_def cleaned_is_empty_def split: option.splits)
  moreover have "cleaned_is_empty v" if "\<not> cleanedUp t" and "AppendPreparedStatement stmt t = Inr v"
    using that by (auto simp: AppendPreparedStatement_def cleaned_is_empty_def split: option.splits)
  moreover have "cleaned_is_empty t'"
    if "no_append_after_Cleanup cs" and "calls cs new_TransactionBase = Inr t'"
    by (rule calls_keeps_invariant [OF that(1) _ that(2)]) (simp add: new_TransactionBase_def)
  ultimately show ?thesis
    using Cleanup_keeps_invariant [of t] by blast
qed

text \<open>
  The theorem at a run of two appends and two cleanups, and at single appends to a new batch.
\<close>

theorem C6_invariant_without_append_after_Cleanup_witness:
  "no_append_after_Cleanup [CallAppend (Some ''a''), CallAppendPreparedStatement (Some 3), CallCleanup, CallCleanup]
   \<and> calls [CallAppend (Some ''a''), CallAppendPreparedStatement (Some 3), CallCleanup, CallCleanup]
        new_TransactionBase = Inr \<lparr>m_queries = [], cleanedUp = True\<rparr>
   \<and> cleaned_is_empty \<lparr>m_queries = [], cleanedUp = True\<rparr>
   \<and> \<not> cleanedUp new_TransactionBase
   \<and> Append (Some ''a'') new_TransactionBase = Inr \<lparr>m_queries = [RawQuery ''a''], cleanedUp = False\<rparr>
   \<and> cleaned_is_empty \<lparr>m_queries = [RawQuery ''a''], cleanedUp = False\<rparr>
   \<and> AppendPreparedStatement (Some 3) new_TransactionBase
        = Inr \<lparr>m_queries = [PreparedStatement 3], cleanedUp = False\<rparr>
   \<and> cleaned_is_empty \<lparr>m_queries = [PreparedStatement 3], cleanedUp = False\<rparr>
   \<and> cleaned_is_empty (Cleanup new_TransactionBase)"
  using C6_invariant_without_append_after_Cleanup
    [of new_TransactionBase "Some ''a''" "\<lparr>m_queries = [RawQuery ''a''], cleanedUp = False\<rparr>"
        "Some 3" "\<lparr>m_queries = [PreparedStatement 3], cleanedUp = False\<rparr>"
        "[CallAppend (Some ''a''), CallAppendPreparedStatement (Some 3), CallCleanup, CallCleanup]"
        "\<lparr>m_queries = [], cleanedUp = True\<rparr>"]
  by (simp add: new_TransactionBase_def Append_def AppendPreparedStatement_def Cleanup_def)

text \<open>
  Claim C6 as stated fails: neither append operation looks at \<^verbatim>\<open>_cleanedUp\<close>, so an append
  after a \<^verbatim>\<open>Cleanup\<close> leaves a batch that is marked cleaned-up and holds an entry.
\<close>

theorem C6_counterexample:
  "calls [CallCleanup, CallAppend (Some ''x'')] new_TransactionBase
     = Inr \<lparr>m_queries = [RawQuery ''x''], cleanedUp = True\<rparr>
   \<and> \<not> cleaned_is_empty \<lparr>m_queries = [RawQuery ''x''], cleanedUp = True\<rparr>"
  by (simp add: new_TransactionBase_def Append_def Cleanup_def cleaned_is_empty_def)

text \<open>
  Claim C7, amended. Calling \<^verbatim>\<open>Cleanup\<close> \<open>n \<ge> 1\<close> times yields exactly the state that one call
  yields, and a call after the first changes nothing. In that state the cleaned-up flag is
  set; the sequence is empty when the batch was not already marked cleaned-up while
  holding entries.
\<close>

theorem C7_Cleanup_idempotent:
  "0 < n \<Longrightarrow>
     (Cleanup ^^ n) t = Cleanup t
     \<and> Cleanup (Cleanup t) = Cleanup t
     \<and> cleanedUp (Cleanup t)
     \<and> (cleaned_is_empty t \<longrightarrow> m_queries (Cleanup t) = [])"
proof -
  assume "0 < n"
  then obtain k where "n = Suc k" by (cases n) simp_all
  then have "(Cleanup ^^ n) t = Cleanup t"
    by (simp only: Cleanup_funpow)
  moreover have "cleanedUp (Cleanup t)"
    by (simp add: Cleanup_def)
  moreover have "m_queries (Cleanup t) = []" if "cleaned_is_empty t"
    using that by (simp add: Cleanup_def cleaned_is_empty_def)
  ultimately show ?thesis
    by (simp add: Cleanup_idem)
qed

text \<open>The theorem at three calls on a batch of two entries.\<close>

theorem C7_Cleanup_idempotent_witness:
  "(0::nat) < 3
   \<and> (Cleanup ^^ 3) \<lparr>m_queries = [RawQuery ''a'', PreparedStatement 5], cleanedUp = False\<rparr>
       = \<lparr>m_queries = [], cleanedUp = True\<rparr>
   \<and> Cleanup \<lparr>m_queries = [RawQuery ''a'', PreparedStatement 5], cleanedUp = False\<rparr>
       = \<lparr>m_queries = [], cleanedUp = True\<rparr>
   \<and> cleaned_is_empty \<lparr>m_queries = [RawQuery ''a'', PreparedStatement 5], cleanedUp = False\<rparr>"
  using C7_Cleanup_idempotent
    [of 3 "\<lparr>m_queries = [RawQuery ''a'', PreparedStatement 5], cleanedUp = False\<rparr>"]
  by (simp add: Cleanup_def cleaned_is_empty_def)

text \<open>
  Claim C7 as stated fails in its description of the state reached: on the batch left by a
  \<^verbatim>\<open>Cleanup\<close> followed by an append, \<^verbatim>\<open>Cleanup\<close> returns at its guard, so one call and two calls
  agree, but the sequence is not empty.
\<close>

theorem C7_counterexample:
  "calls [CallCleanup, CallAppend (Some ''x'')] new_TransactionBase
     = Inr \<lparr>m_queries = [RawQuery ''x''], cleanedUp = True\<rparr>
   \<and> (Cleanup ^^ 2) \<lparr>m_queries = [RawQuery ''x''], cleanedUp = True\<rparr>
     = Cleanup \<lparr>m_queries = [RawQuery ''x''], cleanedUp = True\<rparr>
   \<and> m_queries (Cleanup \<lparr>m_queries = [RawQuery ''x''], cleanedUp = True\<rparr>) \<noteq> []"
  by (simp add: new_TransactionBase_def Append_def Cleanup_def numeral_2_eq_2)

text \<open>
  Claim C8, amended. A null argument makes either append operation fail its \<^verbatim>\<open>ASSERT\<close>:
  the operation aborts and appends nothing. \<^verbatim>\<open>Append\<close> rejects the null pointer and
  \<^verbatim>\<open>AppendPreparedStatement\<close> the null statement handle; every non-null argument, the
  empty string among them, is appended at the end.
\<close>

theorem C8_null_arguments_abort:
  "Append None t = Inl AssertionFailed
   \<and> AppendPreparedStatement None t = Inl AssertionFailed
   \<and> Append (Some q) t = Inr (t\<lparr>m_queries := m_queries t @ [RawQuery q]\<rparr>)
   \<and> AppendPreparedStatement (Some p) t = Inr (t\<lparr>m_queries := m_queries t @ [PreparedStatement p]\<rparr>)"
  by (simp add: Append_def AppendPreparedStatement_def)

text \<open>
  Claim C8 as stated fails: \<^verbatim>\<open>Append\<close> does not reject a pointer to the empty string; it
  appends an entry that holds the empty string.
\<close>

theorem C8_counterexample:
  "Append (Some '''') new_TransactionBase = Inr \<lparr>m_queries = [RawQuery ''''], cleanedUp = False\<rparr>"
  by (simp add: Append_def new_TransactionBase_def)

text \<open>
  Claim C9. Each append places its entry at the end of the sequence. Appending the
  entries \<open>es\<close> one by one to a new batch gives the sequence \<open>es\<close>, in that order; and
  whenever a sequence of append calls on a new batch runs without aborting, the calls were
  exactly the appends of the entries the batch now holds, in order. \<^verbatim>\<open>TryExecute\<close> hands
  this batch to the connection as it is.
\<close>

theorem C9_appends_keep_insertion_order:
  "calls (map append_of es) new_TransactionBase = Inr \<lparr>m_queries = es, cleanedUp = False\<rparr>
   \<and> Append (Some q) t = Inr (t\<lparr>m_queries := m_queries t @ [RawQuery q]\<rparr>)
   \<and> AppendPreparedStatement (Some p) t = Inr (t\<lparr>m_queries := m_queries t @ [PreparedStatement p]\<rparr>)
   \<and> (list_all (\<lambda>c. c \<noteq> CallCleanup) cs \<longrightarrow> calls cs new_TransactionBase = Inr t' \<longrightarrow>
        cs = map append_of (m_queries t') \<and> \<not> cleanedUp t')"
proof -
  have "calls (map append_of es) new_TransactionBase = Inr \<lparr>m_queries = es, cleanedUp = False\<rparr>"
    by (simp add: calls_append_of new_TransactionBase_def)
  moreover have "cs = map append_of (m_queries t') \<and> \<not> cleanedUp t'"
    if "list_all (\<lambda>c. c \<noteq> CallCleanup) cs" and "calls cs new_TransactionBase = Inr t'"
  proof -
    from calls_appends_entries [OF that] obtain es'
      where "cs = map append_of es'"
        and "t' = new_TransactionBase\<lparr>m_queries := m_queries new_TransactionBase @ es'\<rparr>"
      by blast
    then show ?thesis by (simp add: new_TransactionBase_def)
  qed
  ultimately show ?thesis
    by (simp add: Append_Some AppendPreparedStatement_Some)
qed

text \<open>The theorem at an insert, a prepared statement and an update.\<close>

theorem C9_appends_keep_insertion_order_witness:
  "calls [CallAppend (Some ''INSERT''), CallAppendPreparedStatement (Some 7), CallAppend (Some ''UPDATE'')]
      new_TransactionBase
     = Inr \<lparr>m_queries = [RawQuery ''INSERT'', PreparedStatement 7, RawQuery ''UPDATE''], cleanedUp = False\<rparr>
   \<and> [CallAppend (Some ''INSERT''), CallAppendPreparedStatement (Some 7), CallAppend (Some ''UPDATE'')]
     = map append_of [RawQuery ''INSERT'', PreparedStatement 7, RawQuery ''UPDATE'']"
  using C9_appends_keep_insertion_order
    [of "[RawQuery ''INSERT'', PreparedStatement 7, RawQuery ''UPDATE'']" "''x''" new_TransactionBase 0
        "[CallAppend (Some ''INSERT''), CallAppendPreparedStatement (Some 7), CallAppend (Some ''UPDATE'')]"
        "\<lparr>m_queries = [RawQuery ''INSERT'', PreparedStatement 7, RawQuery ''UPDATE''], cleanedUp = False\<rparr>"]
  by simp

section \<open>Properties of the retry loop\<close>

lemma TryExecute_eq:
  "TryExecute env s =
     (ExecuteTransaction env (length (attempts s)) (transaction s),
      s\<lparr>attempts := attempts s @ [ExecuteTransaction env (length (attempts s)) (transaction s)]\<rparr>)"
  by (simp add: TryExecute_def Let_def)

lemma retry_loop_stop:
  "\<not> loopDuration \<le> DEADLOCK_MAX_RETRY_TIME_MS \<Longrightarrow>
     retry_loop env startMSTime loopDuration s = Some (False, s)"
  by (subst retry_loop.simps) simp

lemma retry_loop_success:
  "loopDuration \<le> DEADLOCK_MAX_RETRY_TIME_MS \<Longrightarrow>
   ExecuteTransaction env (length (attempts s)) (transaction s) = 0 \<Longrightarrow>
     retry_loop env startMSTime loopDuration s = Some (True, s\<lparr>attempts := attempts s @ [0]\<rparr>)"
  by (subst retry_loop.simps) (simp add: TryExecute_eq)

lemma retry_loop_failure:
  "loopDuration \<le> DEADLOCK_MAX_RETRY_TIME_MS \<Longrightarrow>
   ExecuteTransaction env (length (attempts s)) (transaction s) \<noteq> 0 \<Longrightarrow>
     retry_loop env startMSTime loopDuration s =
       retry_loop env startMSTime (GetMSTimeDiffToNow env (clock_reads s) startMSTime)
         (s\<lparr>attempts := attempts s @ [ExecuteTransaction env (length (attempts s)) (transaction s)],
            logged := logged s @ [LOG_WARN loopDuration (threadId env)],
            clock_reads := Suc (clock_reads s)\<rparr>)"
  by (subst retry_loop.simps) (simp add: TryExecute_eq)

lemma retry_loop_transaction:
  assumes "retry_loop env st d s = Some y"
  shows "transaction (snd y) = transaction s"
proof (rule retry_loop.raw_induct
        [where P = "\<lambda>(env::environment) (st::32 word) (d::32 word) (s::execution) y.
                      transaction (snd y) = transaction s", OF _ assms], goal_cases)
  case (1 f env st d s y)
  show ?case
  proof (cases "d \<le> DEADLOCK_MAX_RETRY_TIME_MS
                  \<and> ExecuteTransaction env (length (attempts s)) (transaction s) \<noteq> 0")
    case True
    with 1(2) have "f env st (GetMSTimeDiffToNow env (clock_reads s) st)
         (s\<lparr>attempts := attempts s @ [ExecuteTransaction env (length (attempts s)) (transaction s)],
            logged := logged s @ [LOG_WARN d (threadId env)],
            clock_reads := Suc (clock_reads s)\<rparr>) = Some y"
      by (simp add: TryExecute_eq)
    from 1(1) [OF this] show ?thesis by simp
  next
    case False
    with 1(2) show ?thesis
      by (auto simp: TryExecute_eq split: if_splits)
  qed
qed

lemma retry_loop_post:
  assumes "retry_loop env st d s = Some y"
  shows "\<exists>cs ds. attempts (snd y) = attempts s @ cs
           \<and> cs = map (\<lambda>k. ExecuteTransaction env k (transaction s))
                    [length (attempts s) ..< length (attempts s) + length cs]
           \<and> (fst y \<longleftrightarrow> 0 \<in> set cs)
           \<and> (d \<le> DEADLOCK_MAX_RETRY_TIME_MS \<longrightarrow> cs \<noteq> [])
           \<and> logged (snd y) = logged s @ map (\<lambda>x. LOG_WARN x (threadId env)) ds
           \<and> length ds = length (filter (\<lambda>c. c \<noteq> 0) cs)"
proof (rule retry_loop.raw_induct
        [where P = "\<lambda>(env::environment) (st::32 word) (d::32 word) (s::execution) y.
           \<exists>cs ds. attempts (snd y) = attempts s @ cs
           \<and> cs = map (\<lambda>k. ExecuteTransaction env k (transaction s))
                    [length (attempts s) ..< length (attempts s) + length cs]
           \<and> (fst y \<longleftrightarrow> 0 \<in> set cs)
           \<and> (d \<le> DEADLOCK_MAX_RETRY_TIME_MS \<longrightarrow> cs \<noteq> [])
           \<and> logged (snd y) = logged s @ map (\<lambda>x. LOG_WARN x (threadId env)) ds
           \<and> length ds = length (filter (\<lambda>c. c \<noteq> 0) cs)", OF _ assms], goal_cases)
  case (1 f env st d s y)
  let ?c = "ExecuteTransaction env (length (attempts s)) (transaction s)"
  let ?s2 = "s\<lparr>attempts := attempts s @ [?c],
               logged := logged s @ [LOG_WARN d (threadId env)],
               clock_reads := Suc (clock_reads s)\<rparr>"
  let ?Q = "\<lambda>cs ds. attempts (snd y) = attempts s @ cs
           \<and> cs = map (\<lambda>k. ExecuteTransaction env k (transaction s))
                    [length (attempts s) ..< length (attempts s) + length cs]
           \<and> (fst y \<longleftrightarrow> 0 \<in> set cs)
           \<and> (d \<le> DEADLOCK_MAX_RETRY_TIME_MS \<longrightarrow> cs \<noteq> [])
           \<and> logged (snd y) = logged s @ map (\<lambda>x. LOG_WARN x (threadId env)) ds
           \<and> length ds = length (filter (\<lambda>c. c \<noteq> 0) cs)"
  consider (stop) "\<not> d \<le> DEADLOCK_MAX_RETRY_TIME_MS"
    | (ok) "d \<le> DEADLOCK_MAX_RETRY_TIME_MS" "?c = 0"
    | (again) "d \<le> DEADLOCK_MAX_RETRY_TIME_MS" "?c \<noteq> 0"
    by blast
  then show ?case
  proof cases
    case stop
    with 1(2) have "y = (False, s)" by simp
    with stop have "?Q [] []" by simp
    then have "\<exists>ds. ?Q [] ds" by (rule exI)
    then show ?thesis by (rule exI)
  next
    case ok
    with 1(2) have "y = (True, s\<lparr>attempts := attempts s @ [0]\<rparr>)"
      by (simp add: TryExecute_eq)
    with ok have "?Q [0] []" by simp
    then have "\<exists>ds. ?Q [0] ds" by (rule exI)
    then show ?thesis by (rule exI)
  next
    case again
    with 1(2) have "f env st (GetMSTimeDiffToNow env (clock_reads s) st) ?s2 = Some y"
      by (simp add: TryExecute_eq)
    from 1(1) [OF this] obtain cs ds where cs: "attempts (snd y) = attempts ?s2 @ cs"
      "cs = map (\<lambda>k. ExecuteTransaction env k (transaction ?s2))
                    [length (attempts ?s2) ..< length (attempts ?s2) + length cs]"
      "fst y \<longleftrightarrow> 0 \<in> set cs"
      "logged (snd y) = logged ?s2 @ map (\<lambda>x. LOG_WARN x (threadId env)) ds"
      "length ds = length (filter (\<lambda>c. c \<noteq> 0) cs)"
      by blast
    have "[length (attempts s) ..< length (attempts s) + length (?c # cs)]
          = length (attempts s) # [Suc (length (attempts s)) ..< Suc (length (attempts s)) + length cs]"
      by (subst upt_rec) simp
    with cs again have "?Q (?c # cs) (d # ds)"
      by simp
    then have "\<exists>ds'. ?Q (?c # cs) ds'" by (rule exI)
    then show ?thesis by (rule exI)
  qed
qed

lemma retry_loop_exhaust:
  "\<forall>i<n. GetMSTimeDiffToNow env (clock_reads s + i) st \<le> DEADLOCK_MAX_RETRY_TIME_MS \<Longrightarrow>
   \<not> GetMSTimeDiffToNow env (clock_reads s + n) st \<le> DEADLOCK_MAX_RETRY_TIME_MS \<Longrightarrow>
   d \<le> DEADLOCK_MAX_RETRY_TIME_MS \<Longrightarrow>
   \<forall>i\<le>n. ExecuteTransaction env (length (attempts s) + i) (transaction s) \<noteq> 0 \<Longrightarrow>
   \<exists>s'. retry_loop env st d s = Some (False, s')
        \<and> transaction s' = transaction s
        \<and> length (attempts s') = length (attempts s) + Suc n
        \<and> logged s' = logged s @ map (\<lambda>x. LOG_WARN x (threadId env))
              (d # map (\<lambda>i. GetMSTimeDiffToNow env (clock_reads s + i) st) [0..<n])"
proof (induction n arbitrary: s d)
  case 0
  let ?c = "ExecuteTransaction env (length (attempts s)) (transaction s)"
  let ?s2 = "s\<lparr>attempts := attempts s @ [?c],
               logged := logged s @ [LOG_WARN d (threadId env)],
               clock_reads := Suc (clock_reads s)\<rparr>"
  from "0.prems" have c: "?c \<noteq> 0" by simp
  have "retry_loop env st d s
          = retry_loop env st (GetMSTimeDiffToNow env (clock_reads s) st) ?s2"
    by (rule retry_loop_failure [OF "0.prems"(3) c])
  also from "0.prems"(2) have "\<dots> = Some (False, ?s2)"
    by (simp add: retry_loop_stop)
  finally show ?case by simp
next
  case (Suc n)
  let ?c = "ExecuteTransaction env (length (attempts s)) (transaction s)"
  let ?d = "GetMSTimeDiffToNow env (clock_reads s) st"
  let ?s2 = "s\<lparr>attempts := attempts s @ [?c],
               logged := logged s @ [LOG_WARN d (threadId env)],
               clock_reads := Suc (clock_reads s)\<rparr>"
  from Suc.prems(4) have c: "?c \<noteq> 0" by (metis add.right_neutral le0)
  have step: "retry_loop env st d s = retry_loop env st ?d ?s2"
    by (rule retry_loop_failure [OF Suc.prems(3) c])
  from Suc.prems(1) have d: "?d \<le> DEADLOCK_MAX_RETRY_TIME_MS"
    by (metis add.right_neutral zero_less_Suc)
  have within: "\<forall>i<n. GetMSTimeDiffToNow env (clock_reads ?s2 + i) st \<le> DEADLOCK_MAX_RETRY_TIME_MS"
  proof (intro allI impI)
    fix i assume "i < n"
    then have "Suc i < Suc n" by simp
    with Suc.prems(1)
    have "GetMSTimeDiffToNow env (clock_reads s + Suc i) st \<le> DEADLOCK_MAX_RETRY_TIME_MS"
      by blast
    then show "GetMSTimeDiffToNow env (clock_reads ?s2 + i) st \<le> DEADLOCK_MAX_RETRY_TIME_MS"
      by simp
  qed
  have beyond: "\<not> GetMSTimeDiffToNow env (clock_reads ?s2 + n) st \<le> DEADLOCK_MAX_RETRY_TIME_MS"
    using Suc.prems(2) by simp
  have fail: "\<forall>i\<le>n. ExecuteTransaction env (length (attempts ?s2) + i) (transaction ?s2) \<noteq> 0"
  proof (intro allI impI)
    fix i assume "i \<le> n"
    then have "Suc i \<le> Suc n" by simp
    with Suc.prems(4)
    have "ExecuteTransaction env (length (attempts s) + Suc i) (transaction s) \<noteq> 0"
      by blast
    then show "ExecuteTransaction env (length (attempts ?s2) + i) (transaction ?s2) \<noteq> 0"
      by simp
  qed
  from Suc.IH [OF within beyond d fail] obtain s'
    where s': "retry_loop env st ?d ?s2 = Some (False, s')"
      "transaction s' = transaction ?s2"
      "length (attempts s') = length (attempts ?s2) + Suc n"
      "logged s' = logged ?s2 @ map (\<lambda>x. LOG_WARN x (threadId env))
              (?d # map (\<lambda>i. GetMSTimeDiffToNow env (clock_reads ?s2 + i) st) [0..<n])"
    by blast
  have "map (\<lambda>i. GetMSTimeDiffToNow env (clock_reads s + i) st) [0..<Suc n]
        = ?d # map (\<lambda>i. GetMSTimeDiffToNow env (clock_reads ?s2 + i) st) [0..<n]"
    by (subst map_upt_Suc) simp
  with s' step show ?case by simp
qed

text \<open>
  A run of \<open>m\<close> failed re-attempts whose clock readings stay within the ceiling leads to the
  next pass of the loop; that pass makes a further attempt, and returns true when the
  attempt succeeds.
\<close>

lemma retry_loop_failures:
  "d \<le> DEADLOCK_MAX_RETRY_TIME_MS \<Longrightarrow>
   \<forall>i<m. GetMSTimeDiffToNow env (clock_reads s + i) st \<le> DEADLOCK_MAX_RETRY_TIME_MS \<Longrightarrow>
   \<forall>i<m. ExecuteTransaction env (length (attempts s) + i) (transaction s) \<noteq> 0 \<Longrightarrow>
   \<exists>s' d'. retry_loop env st d s = retry_loop env st d' s'
        \<and> d' = (if m = 0 then d else GetMSTimeDiffToNow env (clock_reads s + (m - 1)) st)
        \<and> d' \<le> DEADLOCK_MAX_RETRY_TIME_MS
        \<and> transaction s' = transaction s
        \<and> length (attempts s') = length (attempts s) + m
        \<and> clock_reads s' = clock_reads s + m"
proof (induction m arbitrary: s d)
  case 0
  then have "retry_loop env st d s = retry_loop env st d s
        \<and> d = (if (0::nat) = 0 then d else GetMSTimeDiffToNow env (clock_reads s + (0 - 1)) st)
        \<and> d \<le> DEADLOCK_MAX_RETRY_TIME_MS
        \<and> transaction s = transaction s
        \<and> length (attempts s) = length (attempts s) + 0
        \<and> clock_reads s = clock_reads s + 0"
    by simp
  then show ?case by blast
next
  case (Suc m)
  let ?c = "ExecuteTransaction env (length (attempts s)) (transaction s)"
  let ?d = "GetMSTimeDiffToNow env (clock_reads s) st"
  let ?s2 = "s\<lparr>attempts := attempts s @ [?c],
               logged := logged s @ [LOG_WARN d (threadId env)],
               clock_reads := Suc (clock_reads s)\<rparr>"
  from Suc.prems(3) have c: "?c \<noteq> 0" by (metis add.right_neutral zero_less_Suc)
  have step: "retry_loop env st d s = retry_loop env st ?d ?s2"
    by (rule retry_loop_failure [OF Suc.prems(1) c])
  from Suc.prems(2) have d: "?d \<le> DEADLOCK_MAX_RETRY_TIME_MS"
    by (metis add.right_neutral zero_less_Suc)
  have within: "\<forall>i<m. GetMSTimeDiffToNow env (clock_reads ?s2 + i) st \<le> DEADLOCK_MAX_RETRY_TIME_MS"
  proof (intro allI impI)
    fix i assume "i < m"
    then have "Suc i < Suc m" by simp
    with Suc.prems(2)
    have "GetMSTimeDiffToNow env (clock_reads s + Suc i) st \<le> DEADLOCK_MAX_RETRY_TIME_MS"
      by blast
    then show "GetMSTimeDiffToNow env (clock_reads ?s2 + i) st \<le> DEADLOCK_MAX_RETRY_TIME_MS"
      by simp
  qed
  have fail: "\<forall>i<m. ExecuteTransaction env (length (attempts ?s2) + i) (transaction ?s2) \<noteq> 0"
  proof (intro allI impI)
    fix i assume "i < m"
    then have "Suc i < Suc m" by simp
    with Suc.prems(3)
    have "ExecuteTransaction env (length (attempts s) + Suc i) (transaction s) \<noteq> 0"
      by blast
    then show "ExecuteTransaction env (length (attempts ?s2) + i) (transaction ?s2) \<noteq> 0"
      by simp
  qed
  from Suc.IH [OF d within fail] obtain s' d'
    where s': "retry_loop env st ?d ?s2 = retry_loop env st d' s'"
      "d' = (if m = 0 then ?d else GetMSTimeDiffToNow env (clock_reads ?s2 + (m - 1)) st)"
      "d' \<le> DEADLOCK_MAX_RETRY_TIME_MS"
      "transaction s' = transaction ?s2"
      "length (attempts s') = length (attempts ?s2) + m"
      "clock_reads s' = clock_reads ?s2 + m"
    by blast
  from s'(2) have "d' = GetMSTimeDiffToNow env (clock_reads s + m) st"
    by (cases m) simp_all
  with s' step have "retry_loop env st d s = retry_loop env st d' s'
        \<and> d' = (if Suc m = 0 then d else GetMSTimeDiffToNow env (clock_reads s + (Suc m - 1)) st)
        \<and> d' \<le> DEADLOCK_MAX_RETRY_TIME_MS
        \<and> transaction s' = transaction s
        \<and> length (attempts s') = length (attempts s) + Suc m
        \<and> clock_reads s' = clock_reads s + Suc m"
    by simp
  then show ?case by blast
qed

lemma retry_loop_succeeds:
  assumes "d \<le> DEADLOCK_MAX_RETRY_TIME_MS"
    and "\<forall>i<m. GetMSTimeDiffToNow env (clock_reads s + i) st \<le> DEADLOCK_MAX_RETRY_TIME_MS"
    and "\<forall>i<m. ExecuteTransaction env (length (attempts s) + i) (transaction s) \<noteq> 0"
    and "ExecuteTransaction env (length (attempts s) + m) (transaction s) = 0"
  shows "\<exists>s'. retry_loop env st d s = Some (True, s')
           \<and> transaction s' = transaction s
           \<and> length (attempts s') = length (attempts s) + Suc m"
proof -
  from retry_loop_failures [OF assms(1-3)] obtain u d'
    where u: "retry_loop env st d s = retry_loop env st d' u"
      "d' \<le> DEADLOCK_MAX_RETRY_TIME_MS" "transaction u = transaction s"
      "length (attempts u) = length (attempts s) + m"
    by blast
  from u(3,4) assms(4) have "ExecuteTransaction env (length (attempts u)) (transaction u) = 0"
    by simp
  from retry_loop_success [OF u(2) this] u
  have "retry_loop env st d s = Some (True, u\<lparr>attempts := attempts u @ [0]\<rparr>)
           \<and> transaction (u\<lparr>attempts := attempts u @ [0]\<rparr>) = transaction s
           \<and> length (attempts (u\<lparr>attempts := attempts u @ [0]\<rparr>)) = length (attempts s) + Suc m"
    by simp
  then show ?thesis by (rule exI)
qed

lemma retry_loop_attempts_more:
  assumes "d \<le> DEADLOCK_MAX_RETRY_TIME_MS"
    and "\<forall>i<m. GetMSTimeDiffToNow env (clock_reads s + i) st \<le> DEADLOCK_MAX_RETRY_TIME_MS"
    and "\<forall>i<m. ExecuteTransaction env (length (attempts s) + i) (transaction s) \<noteq> 0"
    and "retry_loop env st d s = Some y"
  shows "length (attempts s) + Suc m \<le> length (attempts (snd y))"
proof -
  from retry_loop_failures [OF assms(1-3)] obtain u d'
    where u: "retry_loop env st d s = retry_loop env st d' u"
      "d' \<le> DEADLOCK_MAX_RETRY_TIME_MS"
      "length (attempts u) = length (attempts s) + m"
    by blast
  from u(1) assms(4) have "retry_loop env st d' u = Some y" by simp
  from retry_loop_post [OF this] u(2) obtain cs
    where "attempts (snd y) = attempts u @ cs" "cs \<noteq> []"
    by blast
  with u(3) show ?thesis by (cases cs) simp_all
qed

section \<open>Properties of \<^verbatim>\<open>Execute\<close>\<close>

lemma Execute_first_success:
  "ExecuteTransaction env 0 t = 0 \<Longrightarrow>
     Execute env t = Some (True, \<lparr>transaction = t, attempts = [0], clock_reads = 0, logged = []\<rparr>)"
  by (simp add: Execute_def TryExecute_eq)

lemma Execute_other_error:
  "ExecuteTransaction env 0 t = c \<Longrightarrow> c \<noteq> 0 \<Longrightarrow> c \<noteq> ER_LOCK_DEADLOCK \<Longrightarrow>
     Execute env t =
       Some (False, \<lparr>transaction = Cleanup t, attempts = [c], clock_reads = 0, logged = []\<rparr>)"
  by (simp add: Execute_def TryExecute_eq)

lemma Execute_deadlock:
  "ExecuteTransaction env 0 t = ER_LOCK_DEADLOCK \<Longrightarrow>
     Execute env t =
       (case retry_loop env (getMSTime env) 0
               \<lparr>transaction = t, attempts = [ER_LOCK_DEADLOCK], clock_reads = 0, logged = []\<rparr> of
          None \<Rightarrow> None
        | Some (True, s') \<Rightarrow> Some (True, s')
        | Some (False, s') \<Rightarrow>
            Some (False, s'\<lparr>logged := logged s' @ [LOG_ERROR (threadId env)],
                           transaction := Cleanup (transaction s')\<rparr>))"
  by (simp add: Execute_def TryExecute_eq ER_LOCK_DEADLOCK_def)

lemma Cleanup_result:
  "cleanedUp (Cleanup t) \<and> (cleaned_is_empty t \<longrightarrow> m_queries (Cleanup t) = [])"
  by (simp add: Cleanup_def cleaned_is_empty_def)

text \<open>What a finished run of Execute leaves, by the three ways through it.\<close>

lemma Execute_post:
  assumes run: "Execute env t = Some (r, s)"
  shows "attempts s = map (\<lambda>k. ExecuteTransaction env k t) [0 ..< length (attempts s)]
         \<and> (r \<longleftrightarrow> 0 \<in> set (attempts s))
         \<and> transaction s = (if r then t else Cleanup t)"
proof -
  let ?c = "ExecuteTransaction env 0 t"
  let ?s1 = "\<lparr>transaction = t, attempts = [ER_LOCK_DEADLOCK], clock_reads = 0, logged = []\<rparr>"
  consider (ok) "?c = 0" | (other) "?c \<noteq> 0" "?c \<noteq> ER_LOCK_DEADLOCK" | (deadlock) "?c = ER_LOCK_DEADLOCK"
    by blast
  then show ?thesis
  proof cases
    case ok
    from run Execute_first_success [OF ok] have "r = True"
      "s = \<lparr>transaction = t, attempts = [0], clock_reads = 0, logged = []\<rparr>" by simp_all
    with ok show ?thesis by simp
  next
    case other
    from run Execute_other_error [OF refl other] have "r = False"
      "s = \<lparr>transaction = Cleanup t, attempts = [?c], clock_reads = 0, logged = []\<rparr>" by simp_all
    with other show ?thesis by simp
  next
    case deadlock
    from run Execute_deadlock [OF deadlock] obtain s'
      where loop: "retry_loop env (getMSTime env) 0 ?s1 = Some (r, s')"
        and s: "s = (if r then s' else s'\<lparr>logged := logged s' @ [LOG_ERROR (threadId env)],
                           transaction := Cleanup (transaction s')\<rparr>)"
      by (auto split: option.splits bool.splits)
    from retry_loop_transaction [OF loop] have tr: "transaction s' = t" by simp
    from retry_loop_post [OF loop] obtain cs where cs: "attempts s' = ER_LOCK_DEADLOCK # cs"
       "cs = map (\<lambda>k. ExecuteTransaction env k t) [1 ..< 1 + length cs]"
       "r \<longleftrightarrow> 0 \<in> set cs"
      by auto
    have "[0 ..< length (ER_LOCK_DEADLOCK # cs)] = 0 # [1 ..< 1 + length cs]"
      by (subst upt_rec) simp
    with cs deadlock
    have "attempts s' = map (\<lambda>k. ExecuteTransaction env k t) [0 ..< length (attempts s')]"
      by simp
    moreover from cs have "r \<longleftrightarrow> 0 \<in> set (attempts s')"
      by (simp add: ER_LOCK_DEADLOCK_def)
    ultimately show ?thesis using s tr by simp
  qed
qed

text \<open>
  The loop has no other way out than a success or a reading of the clock beyond the
  ceiling: while every attempt fails and the clock never reports more than the ceiling,
  \<^verbatim>\<open>Execute\<close> does not return.
\<close>

lemma retry_loop_never_returns:
  assumes "loopDuration \<le> DEADLOCK_MAX_RETRY_TIME_MS"
    and "\<forall>k. ExecuteTransaction env k (transaction s) \<noteq> 0"
    and "\<forall>k. GetMSTimeDiffToNow env k startMSTime \<le> DEADLOCK_MAX_RETRY_TIME_MS"
  shows "retry_loop env startMSTime loopDuration s = None"
proof (rule ccontr)
  assume "retry_loop env startMSTime loopDuration s \<noteq> None"
  then obtain y where y: "retry_loop env startMSTime loopDuration s = Some y"
    by blast
  have "\<not> (loopDuration \<le> DEADLOCK_MAX_RETRY_TIME_MS
           \<and> (\<forall>k. ExecuteTransaction env k (transaction s) \<noteq> 0)
           \<and> (\<forall>k. GetMSTimeDiffToNow env k startMSTime \<le> DEADLOCK_MAX_RETRY_TIME_MS))"
  proof (rule retry_loop.raw_induct
          [where P = "\<lambda>(env::environment) (st::32 word) (d::32 word) (s::execution)
                        (y::bool \<times> execution).
             \<not> (d \<le> DEADLOCK_MAX_RETRY_TIME_MS
                \<and> (\<forall>k. ExecuteTransaction env k (transaction s) \<noteq> 0)
                \<and> (\<forall>k. GetMSTimeDiffToNow env k st \<le> DEADLOCK_MAX_RETRY_TIME_MS))", OF _ y],
         goal_cases)
    case (1 f env st d s y)
    show ?case
    proof
      assume stuck: "d \<le> DEADLOCK_MAX_RETRY_TIME_MS
                \<and> (\<forall>k. ExecuteTransaction env k (transaction s) \<noteq> 0)
                \<and> (\<forall>k. GetMSTimeDiffToNow env k st \<le> DEADLOCK_MAX_RETRY_TIME_MS)"
      with 1(2) have "f env st (GetMSTimeDiffToNow env (clock_reads s) st)
         (s\<lparr>attempts := attempts s @ [ExecuteTransaction env (length (attempts s)) (transaction s)],
            logged := logged s @ [LOG_WARN d (threadId env)],
            clock_reads := Suc (clock_reads s)\<rparr>) = Some y"
        by (simp add: TryExecute_eq)
      from 1(1) [OF this] stuck show False by simp
    qed
  qed
  with assms show False by blast
qed

lemma Execute_never_returns:
  assumes "ExecuteTransaction env 0 t = ER_LOCK_DEADLOCK"
    and "\<forall>k. ExecuteTransaction env k t \<noteq> 0"
    and "\<forall>k. elapsed env k \<le> DEADLOCK_MAX_RETRY_TIME_MS"
  shows "Execute env t = None"
proof -
  have "retry_loop env (getMSTime env) 0
          \<lparr>transaction = t, attempts = [ER_LOCK_DEADLOCK], clock_reads = 0, logged = []\<rparr> = None"
    by (rule retry_loop_never_returns) (use assms in \<open>simp_all add: elapsed_def\<close>)
  with Execute_deadlock [OF assms(1)] show ?thesis by simp
qed

text \<open>The equations that run \<^verbatim>\<open>Execute\<close> in a scripted environment.\<close>

lemmas run_Execute =
  Execute_def TryExecute_eq retry_loop_failure retry_loop_success retry_loop_stop scripted_def
  DEADLOCK_MAX_RETRY_TIME_MS_def ER_LOCK_DEADLOCK_def Cleanup_def

text \<open>
  Claim C1, amended. Whenever \<^verbatim>\<open>Execute\<close> returns, the codes in \<open>attempts\<close> are what the
  connection returned to the calls made, in order; the result is true exactly when one of
  them is the success code 0, and then the batch is as it was submitted. When the result
  is false, \<^verbatim>\<open>Cleanup\<close> has been applied to the batch: it is marked cleaned-up, and its
  entries are cleared provided it was not already marked cleaned-up while holding
  entries. And \<^verbatim>\<open>Execute\<close> does return these results:
  \<^item> a first code that is neither 0 nor the deadlock code is terminal: false after that
    one call, the batch cleaned up;
  \<^item> a first code 0 gives true after that one call;
  \<^item> after a first deadlock, \<open>n\<close> failed re-attempts with clock readings within the
    ceiling and then a re-attempt that succeeds give true, the batch intact;
  \<^item> after a first deadlock, re-attempts that all fail until reading \<open>n\<close> of the clock is
    beyond the ceiling give false, the batch cleaned up.
\<close>

theorem C1_Execute_result:
  "(Execute env t = Some (r, s) \<longrightarrow>
      attempts s = map (\<lambda>k. ExecuteTransaction env k t) [0 ..< length (attempts s)]
      \<and> (r \<longleftrightarrow> 0 \<in> set (attempts s))
      \<and> (r \<longrightarrow> transaction s = t)
      \<and> (\<not> r \<longrightarrow> transaction s = Cleanup t \<and> cleanedUp (transaction s)
                 \<and> (cleaned_is_empty t \<longrightarrow> m_queries (transaction s) = [])))
   \<and> (ExecuteTransaction env 0 t \<noteq> 0 \<longrightarrow> ExecuteTransaction env 0 t \<noteq> ER_LOCK_DEADLOCK \<longrightarrow>
        Execute env t =
          Some (False, \<lparr>transaction = Cleanup t, attempts = [ExecuteTransaction env 0 t],
                        clock_reads = 0, logged = []\<rparr>))
   \<and> (ExecuteTransaction env 0 t = 0 \<longrightarrow>
        Execute env t =
          Some (True, \<lparr>transaction = t, attempts = [0], clock_reads = 0, logged = []\<rparr>))
   \<and> (ExecuteTransaction env 0 t = ER_LOCK_DEADLOCK \<longrightarrow>
       (\<forall>i<n. elapsed env i \<le> DEADLOCK_MAX_RETRY_TIME_MS) \<longrightarrow>
       (\<forall>i<n. ExecuteTransaction env (Suc i) t \<noteq> 0) \<longrightarrow>
       ExecuteTransaction env (Suc n) t = 0 \<longrightarrow>
        (\<exists>s'. Execute env t = Some (True, s') \<and> transaction s' = t
              \<and> length (attempts s') = n + 2))
   \<and> (ExecuteTransaction env 0 t = ER_LOCK_DEADLOCK \<longrightarrow>
       (\<forall>i<n. elapsed env i \<le> DEADLOCK_MAX_RETRY_TIME_MS) \<longrightarrow>
       DEADLOCK_MAX_RETRY_TIME_MS < elapsed env n \<longrightarrow>
       (\<forall>i\<le>n. ExecuteTransaction env (Suc i) t \<noteq> 0) \<longrightarrow>
        (\<exists>s'. Execute env t = Some (False, s') \<and> transaction s' = Cleanup t
              \<and> cleanedUp (transaction s') \<and> length (attempts s') = n + 2))"
proof -
  let ?s1 = "\<lparr>transaction = t, attempts = [ER_LOCK_DEADLOCK], clock_reads = 0, logged = []\<rparr>"
  have zero: "(0 :: 32 word) \<le> DEADLOCK_MAX_RETRY_TIME_MS"
    by simp
  have a: "attempts s = map (\<lambda>k. ExecuteTransaction env k t) [0 ..< length (attempts s)]
      \<and> (r \<longleftrightarrow> 0 \<in> set (attempts s))
      \<and> (r \<longrightarrow> transaction s = t)
      \<and> (\<not> r \<longrightarrow> transaction s = Cleanup t \<and> cleanedUp (transaction s)
                 \<and> (cleaned_is_empty t \<longrightarrow> m_queries (transaction s) = []))"
    if "Execute env t = Some (r, s)"
    using Execute_post [OF that] Cleanup_result [of t] by simp
  have b: "Execute env t =
          Some (False, \<lparr>transaction = Cleanup t, attempts = [ExecuteTransaction env 0 t],
                        clock_reads = 0, logged = []\<rparr>)"
    if "ExecuteTransaction env 0 t \<noteq> 0" and "ExecuteTransaction env 0 t \<noteq> ER_LOCK_DEADLOCK"
    by (rule Execute_other_error [OF refl that])
  have c: "\<exists>s'. Execute env t = Some (True, s') \<and> transaction s' = t
              \<and> length (attempts s') = n + 2"
    if first: "ExecuteTransaction env 0 t = ER_LOCK_DEADLOCK"
      and within: "\<forall>i<n. elapsed env i \<le> DEADLOCK_MAX_RETRY_TIME_MS"
      and fail: "\<forall>i<n. ExecuteTransaction env (Suc i) t \<noteq> 0"
      and ok: "ExecuteTransaction env (Suc n) t = 0"
  proof -
    have "\<exists>u. retry_loop env (getMSTime env) 0 ?s1 = Some (True, u)
           \<and> transaction u = transaction ?s1
           \<and> length (attempts u) = length (attempts ?s1) + Suc n"
      by (rule retry_loop_succeeds [OF zero]) (use within fail ok in \<open>simp_all add: elapsed_def\<close>)
    then obtain u where u: "retry_loop env (getMSTime env) 0 ?s1 = Some (True, u)"
      "transaction u = t" "length (attempts u) = n + 2"
      by auto
    with Execute_deadlock [OF first]
    have "Execute env t = Some (True, u) \<and> transaction u = t \<and> length (attempts u) = n + 2"
      by simp
    then show ?thesis by (rule exI)
  qed
  have d: "\<exists>s'. Execute env t = Some (False, s') \<and> transaction s' = Cleanup t
              \<and> cleanedUp (transaction s') \<and> length (attempts s') = n + 2"
    if first: "ExecuteTransaction env 0 t = ER_LOCK_DEADLOCK"
      and within: "\<forall>i<n. elapsed env i \<le> DEADLOCK_MAX_RETRY_TIME_MS"
      and beyond: "DEADLOCK_MAX_RETRY_TIME_MS < elapsed env n"
      and fail: "\<forall>i\<le>n. ExecuteTransaction env (Suc i) t \<noteq> 0"
  proof -
    have "\<exists>u. retry_loop env (getMSTime env) 0 ?s1 = Some (False, u)
        \<and> transaction u = transaction ?s1
        \<and> length (attempts u) = length (attempts ?s1) + Suc n
        \<and> logged u = logged ?s1 @ map (\<lambda>x. LOG_WARN x (threadId env))
              (0 # map (\<lambda>i. GetMSTimeDiffToNow env (clock_reads ?s1 + i) (getMSTime env)) [0..<n])"
      by (rule retry_loop_exhaust)
         (use within beyond fail in \<open>simp_all add: elapsed_def not_le\<close>)
    then obtain u where u: "retry_loop env (getMSTime env) 0 ?s1 = Some (False, u)"
      "transaction u = t" "length (attempts u) = n + 2"
      by auto
    let ?s = "u\<lparr>logged := logged u @ [LOG_ERROR (threadId env)],
               transaction := Cleanup (transaction u)\<rparr>"
    from u Execute_deadlock [OF first] Cleanup_result [of t]
    have "Execute env t = Some (False, ?s) \<and> transaction ?s = Cleanup t
              \<and> cleanedUp (transaction ?s) \<and> length (attempts ?s) = n + 2"
      by simp
    then show ?thesis by (rule exI)
  qed
  from a b c d Execute_first_success [of env t] show ?thesis by blast
qed

text \<open>
  The theorem at a run that succeeds at once, at one that succeeds on the second retry, at
  one that ends on the duplicate-key code 1062, and at one that runs out of time.
\<close>

theorem C1_Execute_result_witness:
  "Execute (scripted [0] []) \<lparr>m_queries = [RawQuery ''a''], cleanedUp = False\<rparr>
     = Some (True, \<lparr>transaction = \<lparr>m_queries = [RawQuery ''a''], cleanedUp = False\<rparr>,
                    attempts = [0], clock_reads = 0, logged = []\<rparr>)
   \<and> Execute (scripted [1213, 1213, 0] [100]) \<lparr>m_queries = [RawQuery ''a''], cleanedUp = False\<rparr>
     = Some (True, \<lparr>transaction = \<lparr>m_queries = [RawQuery ''a''], cleanedUp = False\<rparr>,
                    attempts = [1213, 1213, 0], clock_reads = 1,
                    logged = [LOG_WARN 0 ''1'']\<rparr>)
   \<and> elapsed (scripted [1213, 1213, 0] [100]) 0 \<le> DEADLOCK_MAX_RETRY_TIME_MS
   \<and> Execute (scripted [1062] []) \<lparr>m_queries = [RawQuery ''a''], cleanedUp = False\<rparr>
     = Some (False, \<lparr>transaction = \<lparr>m_queries = [], cleanedUp = True\<rparr>,
                     attempts = [1062], clock_reads = 0, logged = []\<rparr>)
   \<and> ExecuteTransaction (scripted [1062] []) 0 \<lparr>m_queries = [RawQuery ''a''], cleanedUp = False\<rparr> \<noteq> 0
   \<and> ExecuteTransaction (scripted [1062] []) 0 \<lparr>m_queries = [RawQuery ''a''], cleanedUp = False\<rparr>
       \<noteq> ER_LOCK_DEADLOCK
   \<and> Execute (scripted [1213, 1213] [60001]) \<lparr>m_queries = [RawQuery ''a''], cleanedUp = False\<rparr>
     = Some (False, \<lparr>transaction = \<lparr>m_queries = [], cleanedUp = True\<rparr>,
                     attempts = [1213, 1213], clock_reads = 1,
                     logged = [LOG_WARN 0 ''1'', LOG_ERROR ''1'']\<rparr>)
   \<and> DEADLOCK_MAX_RETRY_TIME_MS < elapsed (scripted [1213, 1213] [60001]) 0
   \<and> cleaned_is_empty \<lparr>m_queries = [RawQuery ''a''], cleanedUp = False\<rparr>"
proof -
  let ?t = "\<lparr>m_queries = [RawQuery ''a''], cleanedUp = False\<rparr>"
  have retried: "\<exists>s'. Execute (scripted [1213, 1213, 0] [100]) ?t = Some (True, s')
                   \<and> transaction s' = ?t \<and> length (attempts s') = 1 + 2"
    using C1_Execute_result [where env = "scripted [1213, 1213, 0] [100]" and t = ?t and n = 1
        and r = True
        and s = "\<lparr>transaction = ?t, attempts = [1213, 1213, 0], clock_reads = 1,
                   logged = [LOG_WARN 0 ''1'']\<rparr>"]
    by (simp add: scripted_def elapsed_def ER_LOCK_DEADLOCK_def DEADLOCK_MAX_RETRY_TIME_MS_def)
  have exhausted: "\<exists>s'. Execute (scripted [1213, 1213] [60001]) ?t = Some (False, s')
                   \<and> transaction s' = Cleanup ?t \<and> cleanedUp (transaction s')
                   \<and> length (attempts s') = 0 + 2"
    using C1_Execute_result [where env = "scripted [1213, 1213] [60001]" and t = ?t and n = 0
        and r = False
        and s = "\<lparr>transaction = \<lparr>m_queries = [], cleanedUp = True\<rparr>,
                     attempts = [1213, 1213], clock_reads = 1,
                     logged = [LOG_WARN 0 ''1'', LOG_ERROR ''1'']\<rparr>"]
    by (simp add: scripted_def elapsed_def ER_LOCK_DEADLOCK_def DEADLOCK_MAX_RETRY_TIME_MS_def)
  have first: "Execute (scripted [0] []) ?t
     = Some (True, \<lparr>transaction = ?t, attempts = [0], clock_reads = 0, logged = []\<rparr>)"
    using C1_Execute_result [where env = "scripted [0] []" and t = ?t and n = 0 and r = True
        and s = "\<lparr>transaction = ?t, attempts = [0], clock_reads = 0, logged = []\<rparr>"]
    by (simp add: scripted_def)
  have other: "Execute (scripted [1062] []) ?t
     = Some (False, \<lparr>transaction = \<lparr>m_queries = [], cleanedUp = True\<rparr>,
                     attempts = [1062], clock_reads = 0, logged = []\<rparr>)"
    using C1_Execute_result [where env = "scripted [1062] []" and t = ?t and n = 0 and r = False
        and s = "\<lparr>transaction = \<lparr>m_queries = [], cleanedUp = True\<rparr>,
                     attempts = [1062], clock_reads = 0, logged = []\<rparr>"]
    by (simp add: scripted_def ER_LOCK_DEADLOCK_def Cleanup_def)
  from retried exhausted first other show ?thesis
    by (simp add: run_Execute elapsed_def cleaned_is_empty_def)
qed

text \<open>
  Claim C1 as stated fails where it has the entries cleared whenever the result is false:
  a batch that was cleaned up and then appended to is marked cleaned-up and holds an
  entry; when its execution fails, \<^verbatim>\<open>Cleanup\<close> returns at its guard and the entry stays.
\<close>

theorem C1_counterexample:
  "calls [CallCleanup, CallAppend (Some ''x'')] new_TransactionBase
     = Inr \<lparr>m_queries = [RawQuery ''x''], cleanedUp = True\<rparr>
   \<and> Execute (scripted [1062] []) \<lparr>m_queries = [RawQuery ''x''], cleanedUp = True\<rparr>
     = Some (False, \<lparr>transaction = \<lparr>m_queries = [RawQuery ''x''], cleanedUp = True\<rparr>,
                     attempts = [1062], clock_reads = 0, logged = []\<rparr>)"
  by (simp add: run_Execute new_TransactionBase_def Append_def)

text \<open>
  Claim C2. Let the first attempt report the deadlock code, let the first \<open>n\<close> readings
  of the clock in the loop be at most the ceiling of 60000 ms and reading \<open>n\<close> be beyond
  it, and let every re-attempt made up to then fail. Then the loop re-attempts once on
  entry (loop timer 0) and once after each reading within the ceiling, \<open>n + 1\<close> times in
  all, with a warning after each; \<^verbatim>\<open>Execute\<close> then emits the one \<^verbatim>\<open>TC_LOG_ERROR\<close> message,
  cleans up the batch and returns false.
\<close>

theorem C2_retries_until_ceiling:
  assumes "ExecuteTransaction env 0 t = ER_LOCK_DEADLOCK"
    and "\<forall>i<n. elapsed env i \<le> DEADLOCK_MAX_RETRY_TIME_MS"
    and "DEADLOCK_MAX_RETRY_TIME_MS < elapsed env n"
    and "\<forall>i\<le>n. ExecuteTransaction env (Suc i) t \<noteq> 0"
  shows "\<exists>s. Execute env t = Some (False, s)
           \<and> transaction s = Cleanup t \<and> cleanedUp (transaction s)
           \<and> length (attempts s) = n + 2
           \<and> logged s = map (\<lambda>d. LOG_WARN d (threadId env)) (0 # map (elapsed env) [0..<n])
                          @ [LOG_ERROR (threadId env)]
           \<and> length (filter (\<lambda>m. \<not> is_warning m) (logged s)) = 1"
proof -
  let ?s1 = "\<lparr>transaction = t, attempts = [ER_LOCK_DEADLOCK], clock_reads = 0, logged = []\<rparr>"
  have within: "\<forall>i<n. GetMSTimeDiffToNow env (clock_reads ?s1 + i) (getMSTime env)
                  \<le> DEADLOCK_MAX_RETRY_TIME_MS"
    using assms(2) by (simp add: elapsed_def)
  have beyond: "\<not> GetMSTimeDiffToNow env (clock_reads ?s1 + n) (getMSTime env)
                  \<le> DEADLOCK_MAX_RETRY_TIME_MS"
    using assms(3) by (simp add: elapsed_def not_le)
  have zero: "(0 :: 32 word) \<le> DEADLOCK_MAX_RETRY_TIME_MS"
    by simp
  have fail: "\<forall>i\<le>n. ExecuteTransaction env (length (attempts ?s1) + i) (transaction ?s1) \<noteq> 0"
    using assms(4) by simp
  from retry_loop_exhaust [OF within beyond zero fail] obtain s'
    where s': "retry_loop env (getMSTime env) 0 ?s1 = Some (False, s')"
      "transaction s' = t" "length (attempts s') = n + 2"
      "logged s' = map (\<lambda>x. LOG_WARN x (threadId env)) (0 # map (elapsed env) [0..<n])"
    by (auto simp: elapsed_def)
  let ?s = "s'\<lparr>logged := logged s' @ [LOG_ERROR (threadId env)],
               transaction := Cleanup (transaction s')\<rparr>"
  have "Execute env t = Some (False, ?s)"
    using Execute_deadlock [OF assms(1)] s'(1) by simp
  moreover have "length (filter (\<lambda>m. \<not> is_warning m) (logged ?s)) = 1"
    using s'(4) by (simp add: filter_map o_def)
  moreover have "cleanedUp (Cleanup t)"
    by (simp add: Cleanup_def)
  ultimately have "Execute env t = Some (False, ?s)
           \<and> transaction ?s = Cleanup t \<and> cleanedUp (transaction ?s)
           \<and> length (attempts ?s) = n + 2
           \<and> logged ?s = map (\<lambda>d. LOG_WARN d (threadId env)) (0 # map (elapsed env) [0..<n])
                          @ [LOG_ERROR (threadId env)]
           \<and> length (filter (\<lambda>m. \<not> is_warning m) (logged ?s)) = 1"
    using s' by simp
  then show ?thesis by (rule exI)
qed

text \<open>The theorem at readings of 30000, 60000 and 60001 ms, every attempt failing.\<close>

theorem C2_retries_until_ceiling_witness:
  "ExecuteTransaction (scripted [1213, 1213, 1, 1213] [30000, 60000, 60001]) 0
      \<lparr>m_queries = [RawQuery ''a''], cleanedUp = False\<rparr> = ER_LOCK_DEADLOCK
   \<and> elapsed (scripted [1213, 1213, 1, 1213] [30000, 60000, 60001]) 0 \<le> DEADLOCK_MAX_RETRY_TIME_MS
   \<and> elapsed (scripted [1213, 1213, 1, 1213] [30000, 60000, 60001]) 1 \<le> DEADLOCK_MAX_RETRY_TIME_MS
   \<and> DEADLOCK_MAX_RETRY_TIME_MS < elapsed (scripted [1213, 1213, 1, 1213] [30000, 60000, 60001]) 2
   \<and> Execute (scripted [1213, 1213, 1, 1213] [30000, 60000, 60001])
        \<lparr>m_queries = [RawQuery ''a''], cleanedUp = False\<rparr>
     = Some (False, \<lparr>transaction = \<lparr>m_queries = [], cleanedUp = True\<rparr>,
                     attempts = [1213, 1213, 1, 1213], clock_reads = 3,
                     logged = [LOG_WARN 0 ''1'', LOG_WARN 30000 ''1'', LOG_WARN 60000 ''1'',
                               LOG_ERROR ''1'']\<rparr>)"
proof -
  let ?env = "scripted [1213, 1213, 1, 1213] [30000, 60000, 60001]"
  let ?t = "\<lparr>m_queries = [RawQuery ''a''], cleanedUp = False\<rparr>"
  have first: "ExecuteTransaction ?env 0 ?t = ER_LOCK_DEADLOCK"
    by (simp add: scripted_def ER_LOCK_DEADLOCK_def)
  have within: "\<forall>i<2. elapsed ?env i \<le> DEADLOCK_MAX_RETRY_TIME_MS"
    by (simp add: elapsed_def scripted_def DEADLOCK_MAX_RETRY_TIME_MS_def less_2_cases_iff)
  have beyond: "DEADLOCK_MAX_RETRY_TIME_MS < elapsed ?env 2"
    by (simp add: elapsed_def scripted_def DEADLOCK_MAX_RETRY_TIME_MS_def)
  have fail: "\<forall>i\<le>2. ExecuteTransaction ?env (Suc i) ?t \<noteq> 0"
    by (simp add: scripted_def le_Suc_eq numeral_2_eq_2)
  from C2_retries_until_ceiling [OF first within beyond fail] within beyond first
  show ?thesis
    by (simp add: run_Execute elapsed_def)
qed

text \<open>
  Claim C3. When the first attempt reports the deadlock code and the first re-attempt
  succeeds, \<^verbatim>\<open>Execute\<close> returns true after exactly two calls into the connection. A
  re-attempt that fails with any code emits a warning with the loop timer, and the loop
  goes on with the next reading of the clock. In every finished run that began with a
  deadlock there are as many warnings as failed re-attempts.
\<close>

theorem C3_retry_after_deadlock:
  "(ExecuteTransaction env 0 t = ER_LOCK_DEADLOCK \<longrightarrow> ExecuteTransaction env 1 t = 0 \<longrightarrow>
      Execute env t =
        Some (True, \<lparr>transaction = t, attempts = [ER_LOCK_DEADLOCK, 0], clock_reads = 0,
                     logged = []\<rparr>))
   \<and> (loopDuration \<le> DEADLOCK_MAX_RETRY_TIME_MS \<longrightarrow>
       ExecuteTransaction env (length (attempts s)) (transaction s) \<noteq> 0 \<longrightarrow>
        retry_loop env startMSTime loopDuration s =
          retry_loop env startMSTime (GetMSTimeDiffToNow env (clock_reads s) startMSTime)
            (s\<lparr>attempts :=
                 attempts s @ [ExecuteTransaction env (length (attempts s)) (transaction s)],
               logged := logged s @ [LOG_WARN loopDuration (threadId env)],
               clock_reads := Suc (clock_reads s)\<rparr>))
   \<and> (ExecuteTransaction env 0 t = ER_LOCK_DEADLOCK \<longrightarrow> Execute env t = Some (r, s') \<longrightarrow>
        length (filter is_warning (logged s')) = length (filter (\<lambda>c. c \<noteq> 0) (tl (attempts s'))))"
proof -
  let ?s1 = "\<lparr>transaction = t, attempts = [ER_LOCK_DEADLOCK], clock_reads = 0, logged = []\<rparr>"
  have "Execute env t =
        Some (True, \<lparr>transaction = t, attempts = [ER_LOCK_DEADLOCK, 0], clock_reads = 0,
                     logged = []\<rparr>)"
    if first: "ExecuteTransaction env 0 t = ER_LOCK_DEADLOCK" and second: "ExecuteTransaction env 1 t = 0"
  proof -
    have "retry_loop env (getMSTime env) 0 ?s1 = Some (True, ?s1\<lparr>attempts := attempts ?s1 @ [0]\<rparr>)"
      by (rule retry_loop_success) (use second in simp_all)
    with Execute_deadlock [OF first] show ?thesis by simp
  qed
  moreover
  have "length (filter is_warning (logged s')) = length (filter (\<lambda>c. c \<noteq> 0) (tl (attempts s')))"
    if first: "ExecuteTransaction env 0 t = ER_LOCK_DEADLOCK" and run: "Execute env t = Some (r, s')"
  proof -
    from run Execute_deadlock [OF first] obtain u
      where loop: "retry_loop env (getMSTime env) 0 ?s1 = Some (r, u)"
        and s': "s' = (if r then u else u\<lparr>logged := logged u @ [LOG_ERROR (threadId env)],
                           transaction := Cleanup (transaction u)\<rparr>)"
      by (auto split: option.splits bool.splits)
    from retry_loop_post [OF loop] obtain cs ds
      where "attempts u = ER_LOCK_DEADLOCK # cs"
        and "logged u = map (\<lambda>x. LOG_WARN x (threadId env)) ds"
        and "length ds = length (filter (\<lambda>c. c \<noteq> 0) cs)"
      by auto
    with s' show ?thesis
      by (simp add: filter_map o_def)
  qed
  ultimately show ?thesis
    using retry_loop_failure [of loopDuration env s startMSTime] by blast
qed

text \<open>
  The theorem at a deadlock followed by a success, at a run whose re-attempts fail with a
  fresh deadlock and with code 5 before one succeeds, and at one step of the loop.
\<close>

theorem C3_retry_after_deadlock_witness:
  "Execute (scripted [1213, 0] []) \<lparr>m_queries = [RawQuery ''a''], cleanedUp = False\<rparr>
     = Some (True, \<lparr>transaction = \<lparr>m_queries = [RawQuery ''a''], cleanedUp = False\<rparr>,
                    attempts = [1213, 0], clock_reads = 0, logged = []\<rparr>)
   \<and> Execute (scripted [1213, 1213, 5, 0] [10, 20]) \<lparr>m_queries = [RawQuery ''a''], cleanedUp = False\<rparr>
     = Some (True, \<lparr>transaction = \<lparr>m_queries = [RawQuery ''a''], cleanedUp = False\<rparr>,
                    attempts = [1213, 1213, 5, 0], clock_reads = 2,
                    logged = [LOG_WARN 0 ''1'', LOG_WARN 10 ''1'']\<rparr>)
   \<and> retry_loop (scripted [1213, 1213, 0] [10]) 0 0
        \<lparr>transaction = \<lparr>m_queries = [RawQuery ''a''], cleanedUp = False\<rparr>,
          attempts = [1213], clock_reads = 0, logged = []\<rparr>
     = retry_loop (scripted [1213, 1213, 0] [10]) 0 10
        \<lparr>transaction = \<lparr>m_queries = [RawQuery ''a''], cleanedUp = False\<rparr>,
          attempts = [1213, 1213], clock_reads = 1, logged = [LOG_WARN 0 ''1'']\<rparr>"
proof -
  let ?t = "\<lparr>m_queries = [RawQuery ''a''], cleanedUp = False\<rparr>"
  have run: "Execute (scripted [1213, 1213, 5, 0] [10, 20]) ?t
     = Some (True, \<lparr>transaction = ?t, attempts = [1213, 1213, 5, 0], clock_reads = 2,
                    logged = [LOG_WARN 0 ''1'', LOG_WARN 10 ''1'']\<rparr>)"
    by (simp add: run_Execute)
  show ?thesis
    using C3_retry_after_deadlock
        [where env = "scripted [1213, 0] []" and t = ?t and loopDuration = 0 and startMSTime = 0
           and s = "\<lparr>transaction = ?t, attempts = [1213], clock_reads = 0, logged = []\<rparr>"
           and r = True
           and s' = "\<lparr>transaction = ?t, attempts = [1213, 0], clock_reads = 0, logged = []\<rparr>"]
      C3_retry_after_deadlock
        [where env = "scripted [1213, 1213, 5, 0] [10, 20]" and t = ?t and loopDuration = 0
           and startMSTime = 0
           and s = "\<lparr>transaction = ?t, attempts = [1213], clock_reads = 0, logged = []\<rparr>"
           and r = True
           and s' = "\<lparr>transaction = ?t, attempts = [1213, 1213, 5, 0], clock_reads = 2,
                      logged = [LOG_WARN 0 ''1'', LOG_WARN 10 ''1'']\<rparr>"]
      C3_retry_after_deadlock
        [where env = "scripted [1213, 1213, 0] [10]" and t = ?t and loopDuration = 0
           and startMSTime = 0
           and s = "\<lparr>transaction = ?t, attempts = [1213], clock_reads = 0, logged = []\<rparr>"
           and r = True
           and s' = "\<lparr>transaction = ?t, attempts = [1213], clock_reads = 0, logged = []\<rparr>"]
      run
    by (simp add: scripted_def ER_LOCK_DEADLOCK_def DEADLOCK_MAX_RETRY_TIME_MS_def)
qed

text \<open>
  Claim C10. After a first attempt that reports the deadlock code, whatever the clock
  reports, a finished run has made at least one re-attempt. The first pass through the
  loop has loop timer 0, as the first warning shows. A pass of the loop whose timer is
  exactly 60000 ms makes an attempt, whichever pass it is and whatever went before: the
  attempt's success is returned, its failure is logged with that timer and followed by
  the next reading; only a timer beyond 60000 ms ends the loop without an attempt. For
  \<^verbatim>\<open>Execute\<close>: when the re-attempts fail, the readings \<open>0, \<dots>, n - 1\<close> of the clock are
  within the ceiling and reading \<open>n\<close> is exactly 60000 ms, re-attempt \<open>n + 2\<close> is still made,
  and its success is returned.
\<close>

theorem C10_at_least_one_retry:
  "(ExecuteTransaction env 0 t = ER_LOCK_DEADLOCK \<longrightarrow> Execute env t = Some (r, s) \<longrightarrow>
      2 \<le> length (attempts s))
   \<and> (ExecuteTransaction env 0 t = ER_LOCK_DEADLOCK \<longrightarrow> ExecuteTransaction env 1 t \<noteq> 0 \<longrightarrow>
       Execute env t = Some (r, s) \<longrightarrow>
        logged s \<noteq> [] \<and> hd (logged s) = LOG_WARN 0 (threadId env))
   \<and> (ExecuteTransaction env 0 t = ER_LOCK_DEADLOCK \<longrightarrow> ExecuteTransaction env 1 t \<noteq> 0 \<longrightarrow>
       elapsed env 0 = DEADLOCK_MAX_RETRY_TIME_MS \<longrightarrow> Execute env t = Some (r, s) \<longrightarrow>
        3 \<le> length (attempts s))
   \<and> (ExecuteTransaction env 0 t = ER_LOCK_DEADLOCK \<longrightarrow> ExecuteTransaction env 1 t \<noteq> 0 \<longrightarrow>
       elapsed env 0 = DEADLOCK_MAX_RETRY_TIME_MS \<longrightarrow> ExecuteTransaction env 2 t = 0 \<longrightarrow>
        Execute env t =
          Some (True, \<lparr>transaction = t,
                       attempts = [ER_LOCK_DEADLOCK, ExecuteTransaction env 1 t, 0],
                       clock_reads = 1, logged = [LOG_WARN 0 (threadId env)]\<rparr>))
   \<and> (retry_loop env startMSTime DEADLOCK_MAX_RETRY_TIME_MS u = Some y \<longrightarrow>
        length (attempts u) < length (attempts (snd y)))
   \<and> (ExecuteTransaction env (length (attempts u)) (transaction u) = 0 \<longrightarrow>
        retry_loop env startMSTime DEADLOCK_MAX_RETRY_TIME_MS u
          = Some (True, u\<lparr>attempts := attempts u @ [0]\<rparr>))
   \<and> (ExecuteTransaction env (length (attempts u)) (transaction u) \<noteq> 0 \<longrightarrow>
        retry_loop env startMSTime DEADLOCK_MAX_RETRY_TIME_MS u
          = retry_loop env startMSTime (GetMSTimeDiffToNow env (clock_reads u) startMSTime)
              (u\<lparr>attempts :=
                   attempts u @ [ExecuteTransaction env (length (attempts u)) (transaction u)],
                 logged := logged u @ [LOG_WARN DEADLOCK_MAX_RETRY_TIME_MS (threadId env)],
                 clock_reads := Suc (clock_reads u)\<rparr>))
   \<and> (DEADLOCK_MAX_RETRY_TIME_MS < loopDuration \<longrightarrow>
        retry_loop env startMSTime loopDuration u = Some (False, u))
   \<and> (ExecuteTransaction env 0 t = ER_LOCK_DEADLOCK \<longrightarrow>
       (\<forall>i<n. elapsed env i \<le> DEADLOCK_MAX_RETRY_TIME_MS) \<longrightarrow>
       elapsed env n = DEADLOCK_MAX_RETRY_TIME_MS \<longrightarrow>
       (\<forall>i\<le>n. ExecuteTransaction env (Suc i) t \<noteq> 0) \<longrightarrow>
       Execute env t = Some (r, s) \<longrightarrow>
        n + 3 \<le> length (attempts s))
   \<and> (ExecuteTransaction env 0 t = ER_LOCK_DEADLOCK \<longrightarrow>
       (\<forall>i<n. elapsed env i \<le> DEADLOCK_MAX_RETRY_TIME_MS) \<longrightarrow>
       elapsed env n = DEADLOCK_MAX_RETRY_TIME_MS \<longrightarrow>
       (\<forall>i\<le>n. ExecuteTransaction env (Suc i) t \<noteq> 0) \<longrightarrow>
       ExecuteTransaction env (n + 2) t = 0 \<longrightarrow>
        (\<exists>s'. Execute env t = Some (True, s') \<and> transaction s' = t
              \<and> length (attempts s') = n + 3))"
proof -
  let ?s1 = "\<lparr>transaction = t, attempts = [ER_LOCK_DEADLOCK], clock_reads = 0, logged = []\<rparr>"
  let ?s2 = "\<lparr>transaction = t, attempts = [ER_LOCK_DEADLOCK, ExecuteTransaction env 1 t],
              clock_reads = 1, logged = [LOG_WARN 0 (threadId env)]\<rparr>"
  have zero: "(0 :: 32 word) \<le> DEADLOCK_MAX_RETRY_TIME_MS"
    by simp
  have loop: "\<exists>v. retry_loop env (getMSTime env) 0 ?s1 = Some (r, v) \<and> length (attempts s) = length (attempts v)
                \<and> (\<exists>ms. logged s = logged v @ ms)"
    if "ExecuteTransaction env 0 t = ER_LOCK_DEADLOCK" and "Execute env t = Some (r, s)"
    for r s
    using that(2) Execute_deadlock [OF that(1)] by (auto split: option.splits bool.splits)
  have step: "retry_loop env (getMSTime env) 0 ?s1 = retry_loop env (getMSTime env) (elapsed env 0) ?s2"
    if "ExecuteTransaction env 1 t \<noteq> 0"
    using retry_loop_failure [OF zero, of env ?s1 "getMSTime env"] that by (simp add: elapsed_def)
  have a: "2 \<le> length (attempts s)"
    if first: "ExecuteTransaction env 0 t = ER_LOCK_DEADLOCK" and run: "Execute env t = Some (r, s)"
  proof -
    from loop [OF first run] obtain v
      where v: "retry_loop env (getMSTime env) 0 ?s1 = Some (r, v)" "length (attempts s) = length (attempts v)"
      by blast
    from retry_loop_post [OF v(1)] zero obtain cs where "attempts v = ER_LOCK_DEADLOCK # cs" "cs \<noteq> []"
      by auto
    with v(2) show ?thesis by (cases cs) simp_all
  qed
  have b: "logged s \<noteq> [] \<and> hd (logged s) = LOG_WARN 0 (threadId env)"
    if first: "ExecuteTransaction env 0 t = ER_LOCK_DEADLOCK" and second: "ExecuteTransaction env 1 t \<noteq> 0"
      and run: "Execute env t = Some (r, s)"
  proof -
    from loop [OF first run] obtain v ms
      where v: "retry_loop env (getMSTime env) 0 ?s1 = Some (r, v)" "logged s = logged v @ ms"
      by blast
    from v(1) step [OF second]
    have "retry_loop env (getMSTime env) (elapsed env 0) ?s2 = Some (r, v)" by simp
    from retry_loop_post [OF this] obtain ds
      where "logged v = LOG_WARN 0 (threadId env) # map (\<lambda>x. LOG_WARN x (threadId env)) ds"
      by auto
    with v(2) show ?thesis by simp
  qed
  have g: "n + 3 \<le> length (attempts s)"
    if first: "ExecuteTransaction env 0 t = ER_LOCK_DEADLOCK"
      and within: "\<forall>i<n. elapsed env i \<le> DEADLOCK_MAX_RETRY_TIME_MS"
      and at: "elapsed env n = DEADLOCK_MAX_RETRY_TIME_MS"
      and fail: "\<forall>i\<le>n. ExecuteTransaction env (Suc i) t \<noteq> 0"
      and run: "Execute env t = Some (r, s)"
    for n r s
  proof -
    from loop [OF first run] obtain v
      where v: "retry_loop env (getMSTime env) 0 ?s1 = Some (r, v)" "length (attempts s) = length (attempts v)"
      by blast
    have "\<forall>i<Suc n. GetMSTimeDiffToNow env (clock_reads ?s1 + i) (getMSTime env)
             \<le> DEADLOCK_MAX_RETRY_TIME_MS"
      using within at by (simp add: elapsed_def less_Suc_eq)
    moreover have "\<forall>i<Suc n. ExecuteTransaction env (length (attempts ?s1) + i) (transaction ?s1) \<noteq> 0"
      using fail by (simp add: less_Suc_eq_le)
    ultimately have "length (attempts ?s1) + Suc (Suc n) \<le> length (attempts (snd (r, v)))"
      using v(1) by (intro retry_loop_attempts_more [OF zero])
    with v(2) show ?thesis by simp
  qed
  have h: "\<exists>s'. Execute env t = Some (True, s') \<and> transaction s' = t
              \<and> length (attempts s') = n + 3"
    if first: "ExecuteTransaction env 0 t = ER_LOCK_DEADLOCK"
      and within: "\<forall>i<n. elapsed env i \<le> DEADLOCK_MAX_RETRY_TIME_MS"
      and at: "elapsed env n = DEADLOCK_MAX_RETRY_TIME_MS"
      and fail: "\<forall>i\<le>n. ExecuteTransaction env (Suc i) t \<noteq> 0"
      and ok: "ExecuteTransaction env (n + 2) t = 0"
  proof -
    have "\<forall>i<Suc n. GetMSTimeDiffToNow env (clock_reads ?s1 + i) (getMSTime env)
             \<le> DEADLOCK_MAX_RETRY_TIME_MS"
      using within at by (simp add: elapsed_def less_Suc_eq)
    moreover have "\<forall>i<Suc n. ExecuteTransaction env (length (attempts ?s1) + i) (transaction ?s1) \<noteq> 0"
      using fail by (simp add: less_Suc_eq_le)
    moreover have "ExecuteTransaction env (length (attempts ?s1) + Suc n) (transaction ?s1) = 0"
      using ok by simp
    ultimately have "\<exists>v. retry_loop env (getMSTime env) 0 ?s1 = Some (True, v)
           \<and> transaction v = transaction ?s1
           \<and> length (attempts v) = length (attempts ?s1) + Suc (Suc n)"
      by (intro retry_loop_succeeds [OF zero])
    then obtain v where v: "retry_loop env (getMSTime env) 0 ?s1 = Some (True, v)"
      "transaction v = t" "length (attempts v) = n + 3"
      by auto
    with Execute_deadlock [OF first]
    have "Execute env t = Some (True, v) \<and> transaction v = t \<and> length (attempts v) = n + 3"
      by simp
    then show ?thesis by (rule exI)
  qed
  have c: "3 \<le> length (attempts s)"
    if first: "ExecuteTransaction env 0 t = ER_LOCK_DEADLOCK" and second: "ExecuteTransaction env 1 t \<noteq> 0"
      and at: "elapsed env 0 = DEADLOCK_MAX_RETRY_TIME_MS" and run: "Execute env t = Some (r, s)"
    using g [of 0 r s] that by simp
  have d: "Execute env t = Some (True, ?s2\<lparr>attempts := attempts ?s2 @ [0]\<rparr>)"
    if first: "ExecuteTransaction env 0 t = ER_LOCK_DEADLOCK" and second: "ExecuteTransaction env 1 t \<noteq> 0"
      and at: "elapsed env 0 = DEADLOCK_MAX_RETRY_TIME_MS" and third: "ExecuteTransaction env 2 t = 0"
  proof -
    have "retry_loop env (getMSTime env) (elapsed env 0) ?s2
            = Some (True, ?s2\<lparr>attempts := attempts ?s2 @ [0]\<rparr>)"
      by (rule retry_loop_success) (use at third in \<open>simp_all add: numeral_2_eq_2\<close>)
    with step [OF second] Execute_deadlock [OF first] show ?thesis by simp
  qed
  have e: "length (attempts u) < length (attempts (snd y))"
    if "retry_loop env startMSTime DEADLOCK_MAX_RETRY_TIME_MS u = Some y"
  proof -
    from retry_loop_post [OF that] obtain cs
      where "attempts (snd y) = attempts u @ cs" "cs \<noteq> []"
      by blast
    then show ?thesis by (cases cs) simp_all
  qed
  have f: "retry_loop env startMSTime loopDuration u = Some (False, u)"
    if "DEADLOCK_MAX_RETRY_TIME_MS < loopDuration"
    by (rule retry_loop_stop) (use that in \<open>simp add: not_le\<close>)
  from a b c d e f g [of n r s] h
    retry_loop_success [of DEADLOCK_MAX_RETRY_TIME_MS env u startMSTime]
    retry_loop_failure [of DEADLOCK_MAX_RETRY_TIME_MS env u startMSTime]
  show ?thesis by simp
qed

text \<open>
  The theorem at clocks whose first, and whose second, reading is exactly 60000 ms, where
  the next re-attempt is made and succeeds, and at the same runs with 60001 ms, where it
  is not made.
\<close>

theorem C10_at_least_one_retry_witness:
  "Execute (scripted [1213, 1213, 0] [60000]) \<lparr>m_queries = [RawQuery ''a''], cleanedUp = False\<rparr>
     = Some (True, \<lparr>transaction = \<lparr>m_queries = [RawQuery ''a''], cleanedUp = False\<rparr>,
                    attempts = [1213, 1213, 0], clock_reads = 1,
                    logged = [LOG_WARN 0 ''1'']\<rparr>)
   \<and> elapsed (scripted [1213, 1213, 0] [60000]) 0 = DEADLOCK_MAX_RETRY_TIME_MS
   \<and> Execute (scripted [1213, 1213, 0] [60001]) \<lparr>m_queries = [RawQuery ''a''], cleanedUp = False\<rparr>
     = Some (False, \<lparr>transaction = \<lparr>m_queries = [], cleanedUp = True\<rparr>,
                     attempts = [1213, 1213], clock_reads = 1,
                     logged = [LOG_WARN 0 ''1'', LOG_ERROR ''1'']\<rparr>)
   \<and> elapsed (scripted [1213, 1213, 1213, 0] [10, 60000]) 0 \<le> DEADLOCK_MAX_RETRY_TIME_MS
   \<and> elapsed (scripted [1213, 1213, 1213, 0] [10, 60000]) 1 = DEADLOCK_MAX_RETRY_TIME_MS
   \<and> Execute (scripted [1213, 1213, 1213, 0] [10, 60000])
        \<lparr>m_queries = [RawQuery ''a''], cleanedUp = False\<rparr>
     = Some (True, \<lparr>transaction = \<lparr>m_queries = [RawQuery ''a''], cleanedUp = False\<rparr>,
                    attempts = [1213, 1213, 1213, 0], clock_reads = 2,
                    logged = [LOG_WARN 0 ''1'', LOG_WARN 10 ''1'']\<rparr>)
   \<and> Execute (scripted [1213, 1213, 1213, 0] [10, 60001])
        \<lparr>m_queries = [RawQuery ''a''], cleanedUp = False\<rparr>
     = Some (False, \<lparr>transaction = \<lparr>m_queries = [], cleanedUp = True\<rparr>,
                     attempts = [1213, 1213, 1213], clock_reads = 2,
                     logged = [LOG_WARN 0 ''1'', LOG_WARN 10 ''1'', LOG_ERROR ''1'']\<rparr>)"
proof -
  let ?t = "\<lparr>m_queries = [RawQuery ''a''], cleanedUp = False\<rparr>"
  let ?u = "\<lparr>transaction = ?t, attempts = [1213], clock_reads = 0, logged = []\<rparr>"
  have later: "\<exists>s'. Execute (scripted [1213, 1213, 1213, 0] [10, 60000]) ?t = Some (True, s')
                 \<and> transaction s' = ?t \<and> length (attempts s') = 1 + 3"
    using C10_at_least_one_retry
        [where env = "scripted [1213, 1213, 1213, 0] [10, 60000]" and t = ?t and r = True and n = 1
           and s = "\<lparr>transaction = ?t, attempts = [1213, 1213, 1213, 0], clock_reads = 2,
                      logged = [LOG_WARN 0 ''1'', LOG_WARN 10 ''1'']\<rparr>"
           and u = ?u and startMSTime = 0 and loopDuration = 60001 and y = "(True, ?u)"]
    by (simp add: scripted_def elapsed_def ER_LOCK_DEADLOCK_def DEADLOCK_MAX_RETRY_TIME_MS_def
          le_Suc_eq)
  have first: "Execute (scripted [1213, 1213, 0] [60000]) ?t
     = Some (True, \<lparr>transaction = ?t, attempts = [1213, 1213, 0], clock_reads = 1,
                    logged = [LOG_WARN 0 ''1'']\<rparr>)"
    using C10_at_least_one_retry
        [where env = "scripted [1213, 1213, 0] [60000]" and t = ?t and r = True and n = 0
           and s = "\<lparr>transaction = ?t, attempts = [1213, 1213, 0], clock_reads = 1,
                      logged = [LOG_WARN 0 ''1'']\<rparr>"
           and u = ?u and startMSTime = 0 and loopDuration = 60001 and y = "(True, ?u)"]
    by (simp add: scripted_def elapsed_def ER_LOCK_DEADLOCK_def DEADLOCK_MAX_RETRY_TIME_MS_def)
  from later first show ?thesis
    by (simp add: run_Execute elapsed_def)
qed

section \<open>Properties of the completion handle\<close>

lemma InvokeIfReady_not_ready:
  "m_future h = NoState \<or> m_future h = NotReady \<Longrightarrow> InvokeIfReady h = (False, h)"
  by (auto simp: InvokeIfReady_def)

lemma InvokeIfReady_ready:
  "m_future h = Ready v \<Longrightarrow>
     InvokeIfReady h =
       (True, h\<lparr>m_future := NoState, m_callback_invoked := m_callback_invoked h @ [v]\<rparr>)"
  by (simp add: InvokeIfReady_def)

lemma handle_step_NoState:
  "m_future h = NoState \<Longrightarrow> handle_step e h = h"
  by (cases e) (simp_all add: InvokeIfReady_def)

lemma handle_run_NoState:
  "m_future h = NoState \<Longrightarrow> handle_run es h = h"
  by (induction es) (simp_all add: handle_step_NoState)

lemma handle_step_invoked:
  "length (m_callback_invoked (handle_step e h))
     \<le> length (m_callback_invoked h) + (if m_future h = NoState then 0 else 1)
   \<and> (m_future (handle_step e h) \<noteq> NoState \<longrightarrow>
        m_callback_invoked (handle_step e h) = m_callback_invoked h)"
  by (cases e; cases "m_future h") (simp_all add: InvokeIfReady_def)

lemma handle_run_at_most_once:
  "length (m_callback_invoked (handle_run es h))
     \<le> length (m_callback_invoked h) + (if m_future h = NoState then 0 else 1)"
proof (induction es arbitrary: h)
  case Nil
  show ?case by simp
next
  case (Cons e es)
  show ?case
  proof (cases "m_future (handle_step e h) = NoState")
    case True
    then have "handle_run (e # es) h = handle_step e h"
      by (simp add: handle_run_NoState)
    with handle_step_invoked [of e h] show ?thesis by simp
  next
    case False
    with handle_step_invoked [of e h]
    have same: "m_callback_invoked (handle_step e h) = m_callback_invoked h" by simp
    from False have "m_future h \<noteq> NoState"
      using handle_step_NoState [of h e] by auto
    with Cons.IH [of "handle_step e h"] same False show ?thesis by simp
  qed
qed

text \<open>
  Claim C5. While the future has no shared state or holds no value yet, \<^verbatim>\<open>InvokeIfReady\<close>
  returns false and leaves the handle as it is. Once the value is there, the call returns
  true, having taken the value out of the future and invoked the callback with it; after
  that no sequence of polls and stored results changes the handle, so the callback is not
  invoked again. A handle whose callback has not been invoked has it invoked at most once
  over any sequence of events.
\<close>

theorem C5_InvokeIfReady_fires_once:
  "(m_future h = NoState \<or> m_future h = NotReady \<longrightarrow> InvokeIfReady h = (False, h))
   \<and> (m_future h = Ready v \<longrightarrow>
        InvokeIfReady h =
          (True, h\<lparr>m_future := NoState, m_callback_invoked := m_callback_invoked h @ [v]\<rparr>)
        \<and> handle_run es (snd (InvokeIfReady h)) = snd (InvokeIfReady h))
   \<and> (m_callback_invoked h = [] \<longrightarrow> length (m_callback_invoked (handle_run es h)) \<le> 1)"
proof -
  have "handle_run es (snd (InvokeIfReady h)) = snd (InvokeIfReady h)" if "m_future h = Ready v"
    by (rule handle_run_NoState) (simp add: InvokeIfReady_ready [OF that])
  moreover have "length (m_callback_invoked (handle_run es h)) \<le> 1" if "m_callback_invoked h = []"
    using handle_run_at_most_once [of es h] that by (simp split: if_splits)
  ultimately show ?thesis
    using InvokeIfReady_not_ready [of h] InvokeIfReady_ready [of h v] by blast
qed

text \<open>
  The theorem at a pending, an invalid and a ready future, and at a handle that is polled
  before and after its result arrives.
\<close>

theorem C5_InvokeIfReady_fires_once_witness:
  "InvokeIfReady \<lparr>m_future = NotReady, m_callback_invoked = []\<rparr>
     = (False, \<lparr>m_future = NotReady, m_callback_invoked = []\<rparr>)
   \<and> InvokeIfReady \<lparr>m_future = NoState, m_callback_invoked = []\<rparr>
     = (False, \<lparr>m_future = NoState, m_callback_invoked = []\<rparr>)
   \<and> InvokeIfReady \<lparr>m_future = Ready True, m_callback_invoked = []\<rparr>
     = (True, \<lparr>m_future = NoState, m_callback_invoked = [True]\<rparr>)
   \<and> handle_run [Poll, Fulfil True, Poll, Poll, Fulfil False, Poll]
        \<lparr>m_future = NotReady, m_callback_invoked = []\<rparr>
     = \<lparr>m_future = NoState, m_callback_invoked = [True]\<rparr>"
  using C5_InvokeIfReady_fires_once
      [where h = "\<lparr>m_future = NotReady, m_callback_invoked = []\<rparr>" and v = True
         and es = "[Poll, Fulfil True, Poll, Poll, Fulfil False, Poll]"]
    C5_InvokeIfReady_fires_once
      [where h = "\<lparr>m_future = NoState, m_callback_invoked = []\<rparr>" and v = True and es = "[]"]
    C5_InvokeIfReady_fires_once
      [where h = "\<lparr>m_future = Ready True, m_callback_invoked = []\<rparr>" and v = True
         and es = "[Poll, Poll]"]
  by (simp add: InvokeIfReady_def)

end
